theory Spec2Isabelle
  imports Main "HOL-Library.Char_ord" "HOL-Library.List_Lexorder" "HOL-Library.AList"
    "HOL-Library.Multiset"
begin

unbundle bit_operations_syntax

section \<open>Errors\<close>

text \<open>
  Every \<^verbatim>\<open>raise\<close> of the modelled Python is a value of this type. The two plain
  \<^verbatim>\<open>Exception\<close>s of \<^verbatim>\<open>DOSPartTable.add\<close> and the one of the
  \<^verbatim>\<open>SFDiskPartTable\<close> constructor get a constructor each; the built-in exceptions
  keep their Python names.
\<close>

datatype error =
    SectorBytesDoesNotDivide nat
  | LogicalWithoutExtended
  | PrimaryNumberTooHigh int
  | ValueError string
  | KeyError string
  | TypeError
  | IndexError
  | ZeroDivisionError
  | RecursionError

section \<open>The partition-table layout engine (curtin/commands/block\_meta\_v2.py)\<close>

subsection \<open>Entries and alignment\<close>

record PartTableEntry =
  number :: int
  start :: int
  size_sectors :: int
  type :: "string option"
  uuid :: "string option"
  bootable :: "bool option"

definition ONE_MIB_BYTES :: int where
  "ONE_MIB_BYTES = push_bit 20 1"

text \<open>Python integers are unbounded two's complement numbers, as \<^typ>\<open>int\<close> is.\<close>

definition align_up :: "int \<Rightarrow> int \<Rightarrow> int" where
  "align_up size' block_size = (size' + block_size - 1) AND NOT (block_size - 1)"

definition align_down :: "int \<Rightarrow> int \<Rightarrow> int" where
  "align_down size' block_size = size' AND NOT (block_size - 1)"

subsection \<open>Flag tables\<close>

definition GPT_GUID_TO_CURTIN_MAP :: "(string \<times> (string \<times> string)) list" where
  "GPT_GUID_TO_CURTIN_MAP =
    [(''C12A7328-F81F-11D2-BA4B-00A0C93EC93B'', (''boot'', ''EF00'')),
     (''21686148-6449-6E6F-744E-656564454649'', (''bios_grub'', ''EF02'')),
     (''933AC7E1-2EB4-4F13-B844-0E14E2AEF915'', (''home'', ''8302'')),
     (''0FC63DAF-8483-4772-8E79-3D69D8477DE4'', (''linux'', ''8300'')),
     (''E6D6D379-F507-44C2-A23C-238F2A3DF928'', (''lvm'', ''8e00'')),
     (''024DEE41-33E7-11D3-9D69-0008C781F39F'', (''mbr'', '''')),
     (''9E1A2D38-C612-4316-AA26-8B49521E5A8B'', (''prep'', ''4200'')),
     (''A19D880F-05FC-4D3B-A006-743F0F84911E'', (''raid'', ''fd00'')),
     (''0657FD6D-A4AB-43C4-84E5-0933C84B4F4F'', (''swap'', ''8200''))]"

definition upper_char :: "char \<Rightarrow> char" where
  "upper_char c =
     (if CHR ''a'' \<le> c \<and> c \<le> CHR ''z'' then char_of (of_char c - (32::nat)) else c)"

text \<open>
  A dict comprehension keeps the last value written for a key, \<open>map_of\<close> the first
  pair it meets: hence the \<open>rev\<close>.
\<close>

definition FLAG_TO_GUID :: "string \<rightharpoonup> string" where
  "FLAG_TO_GUID = map_of (rev (map (\<lambda>(guid, (flag, typecode)). (flag, guid)) GPT_GUID_TO_CURTIN_MAP))"

definition FLAG_TO_MBR_TYPE :: "string \<rightharpoonup> string" where
  "FLAG_TO_MBR_TYPE =
     (map_of (rev (map (\<lambda>(guid, (flag, typecode)). (flag, map upper_char (take 2 typecode)))
        GPT_GUID_TO_CURTIN_MAP)))(''extended'' \<mapsto> ''05'')"

text \<open>\<^verbatim>\<open>d.get(action.get('flag'))\<close>: a missing flag is the key \<^verbatim>\<open>None\<close>, in neither table.\<close>

definition get_flag :: "(string \<rightharpoonup> string) \<Rightarrow> string option \<Rightarrow> string option" where
  "get_flag d f = (case f of None \<Rightarrow> None | Some k \<Rightarrow> d k)"

subsection \<open>Partition actions\<close>

text \<open>
  A partition action is a dict; the fields the layout engine reads are made explicit,
  \<open>None\<close> standing for an absent key. Byte amounts (\<^verbatim>\<open>offset\<close>, \<^verbatim>\<open>size\<close>) are of
  an arbitrary type \<open>'a\<close>: they are only ever passed to \<^verbatim>\<open>util.human2bytes\<close>. The
  value of \<^verbatim>\<open>wipe\<close> may itself be Python's \<^verbatim>\<open>None\<close>, hence the two options.
\<close>

record 'a action =
  a_flag :: "string option"
  a_offset :: "'a option"
  a_number :: "int option"
  a_size :: "'a option"
  a_uuid :: "string option"
  a_wipe :: "string option option"
  a_preserve :: "bool option"

subsection \<open>SFDiskPartTable\<close>

text \<open>
  \<^verbatim>\<open>sector_bytes\<close> is the logical sector size that
  \<^verbatim>\<open>block.get_blockdev_sector_size\<close> reports, a byte count: a natural number.
  \<^verbatim>\<open>ONE_MIB_BYTES % 0\<close> raises \<^verbatim>\<open>ZeroDivisionError\<close>.
\<close>

record SFDiskPartTable =
  entries :: "PartTableEntry list"
  sector_bytes :: nat
  one_mib_sectors :: int

definition SFDiskPartTable_init :: "nat \<Rightarrow> error + SFDiskPartTable" where
  "SFDiskPartTable_init sb =
     (if sb = 0 then Inl ZeroDivisionError
      else if ONE_MIB_BYTES mod int sb \<noteq> 0 then Inl (SectorBytesDoesNotDivide sb)
      else Inr \<lparr> entries = [], sector_bytes = sb, one_mib_sectors = ONE_MIB_BYTES div int sb \<rparr>)"

text \<open>
  \<^verbatim>\<open>util.human2bytes\<close> is not part of the sources at hand: it is a parameter
  \<open>h2b\<close>, which may raise. It returns an integral number, so \<^verbatim>\<open>int(...)\<close> leaves
  the value as it is. Python's \<^verbatim>\<open>//\<close> rounds towards minus infinity, as \<open>div\<close> does.
\<close>

definition bytes2sectors ::
  "('a \<Rightarrow> error + int) \<Rightarrow> ('b::type) SFDiskPartTable_scheme \<Rightarrow> 'a \<Rightarrow> error + int" where
  "bytes2sectors h2b self amount =
     (case h2b amount of
        Inl e \<Rightarrow> Inl e
      | Inr b \<Rightarrow> if sector_bytes self = 0 then Inl ZeroDivisionError
                 else Inr (b div int (sector_bytes self)))"

definition sectors2bytes :: "('b::type) SFDiskPartTable_scheme \<Rightarrow> int \<Rightarrow> int" where
  "sectors2bytes self amount = amount * int (sector_bytes self)"

text \<open>\<^verbatim>\<open>self.bytes2sectors(action['size'])\<close>: a missing key raises \<^verbatim>\<open>KeyError\<close>.\<close>

definition size_of_action ::
  "('a \<Rightarrow> error + int) \<Rightarrow> ('b::type) SFDiskPartTable_scheme \<Rightarrow> 'a action \<Rightarrow> error + int" where
  "size_of_action h2b self action =
     (case a_size action of
        None \<Rightarrow> Inl (KeyError ''size'')
      | Some s \<Rightarrow> bytes2sectors h2b self s)"

subsection \<open>GPTPartTable\<close>

definition GPTPartTable_add ::
  "('a \<Rightarrow> error + int) \<Rightarrow> SFDiskPartTable \<Rightarrow> 'a action
     \<Rightarrow> error + (PartTableEntry \<times> SFDiskPartTable)" where
  "GPTPartTable_add h2b self action =
     (let number' = (case a_number action of
                      Some n \<Rightarrow> n
                    | None \<Rightarrow> int (length (entries self)) + 1);
          start_r = (case a_offset action of
                       Some off \<Rightarrow> bytes2sectors h2b self off
                     | None \<Rightarrow>
                         if entries self \<noteq> [] then
                           (let prev = last (entries self)
                            in Inr (align_up (start prev + size_sectors prev)
                                      (one_mib_sectors self)))
                         else Inr (one_mib_sectors self))
      in case start_r of
           Inl e \<Rightarrow> Inl e
         | Inr start' \<Rightarrow>
             (case size_of_action h2b self action of
                Inl e \<Rightarrow> Inl e
              | Inr size' \<Rightarrow>
                  (let entry = \<lparr> number = number', start = start', size_sectors = size',
                                 type = get_flag FLAG_TO_GUID (a_flag action),
                                 uuid = a_uuid action, bootable = Some False \<rparr>
                   in Inr (entry, self\<lparr> entries := entries self @ [entry] \<rparr>))))"

subsection \<open>DOSPartTable\<close>

record DOSPartTable = SFDiskPartTable +
  extended :: "PartTableEntry option"

definition DOSPartTable_init :: "nat \<Rightarrow> error + DOSPartTable" where
  "DOSPartTable_init sb =
     (case SFDiskPartTable_init sb of
        Inl e \<Rightarrow> Inl e
      | Inr t \<Rightarrow> Inr (SFDiskPartTable.extend t \<lparr> extended = None \<rparr>))"

text \<open>
  \<^verbatim>\<open>for entry in reversed(self.entries): if entry.number > 4: prev = entry; break\<close>
\<close>

fun last_logical :: "PartTableEntry list \<Rightarrow> PartTableEntry option" where
  "last_logical es = List.find (\<lambda>e. number e > 4) (rev es)"

text \<open>
  \<^verbatim>\<open>for entry in self.entries: if entry.number <= 4: prev = entry\<close>: the loop does
  not stop, it keeps the last match.
\<close>

fun last_primary :: "PartTableEntry option \<Rightarrow> PartTableEntry list \<Rightarrow> PartTableEntry option" where
  "last_primary prev [] = prev"
| "last_primary prev (e # es) = last_primary (if number e \<le> 4 then Some e else prev) es"

definition DOSPartTable_add ::
  "('a \<Rightarrow> error + int) \<Rightarrow> DOSPartTable \<Rightarrow> 'a action
     \<Rightarrow> error + (PartTableEntry \<times> DOSPartTable)" where
  "DOSPartTable_add h2b self action =
     (let flag = a_flag action;
          start_r = (case a_offset action of
                       None \<Rightarrow> Inr None
                     | Some off \<Rightarrow> map_sum id Some (bytes2sectors h2b self off))
      in case start_r of
           Inl e \<Rightarrow> Inl e
         | Inr start0 \<Rightarrow>
             (let placed =
                (if flag = Some ''logical'' then
                   (case extended self of
                      None \<Rightarrow> Inl LogicalWithoutExtended
                    | Some ext \<Rightarrow>
                        (case last_logical (entries self) of
                           None \<Rightarrow>
                             Inr (5, case start0 of
                                       Some s \<Rightarrow> s
                                     | None \<Rightarrow> align_up (start ext + one_mib_sectors self)
                                                 (one_mib_sectors self))
                         | Some prev \<Rightarrow>
                             Inr (number prev + 1,
                                  case start0 of
                                    Some s \<Rightarrow> s
                                  | None \<Rightarrow> align_up (start prev + size_sectors prev
                                                         + one_mib_sectors self)
                                              (one_mib_sectors self))))
                 else
                   (let number' = (case a_number action of
                                    Some n \<Rightarrow> n
                                  | None \<Rightarrow> int (length (entries self)) + 1)
                    in if number' > 4 then Inl (PrimaryNumberTooHigh number')
                       else Inr (number',
                                 case start0 of
                                   Some s \<Rightarrow> s
                                 | None \<Rightarrow>
                                     (case last_primary None (entries self) of
                                        None \<Rightarrow> one_mib_sectors self
                                      | Some prev \<Rightarrow>
                                          align_up (start prev + size_sectors prev)
                                            (one_mib_sectors self)))))
              in case placed of
                   Inl e \<Rightarrow> Inl e
                 | Inr (number', start') \<Rightarrow>
                     (case size_of_action h2b self action of
                        Inl e \<Rightarrow> Inl e
                      | Inr size' \<Rightarrow>
                          (let entry = \<lparr> number = number', start = start', size_sectors = size',
                                         type = get_flag FLAG_TO_MBR_TYPE flag, uuid = None,
                                         bootable = (if flag = Some ''boot'' then Some True
                                                     else None) \<rparr>
                           in Inr (entry,
                                   self\<lparr> entries := entries self @ [entry],
                                         extended := (if flag = Some ''extended'' then Some entry
                                                      else extended self) \<rparr>)))))"

subsection \<open>Adding the partitions of a disk in order\<close>

text \<open>
  \<^verbatim>\<open>disk_handler_v2\<close> builds one table and calls \<^verbatim>\<open>table.add(action)\<close> for each
  partition action in turn; an exception raised by one call ends the loop.
\<close>

fun GPTPartTable_add_all ::
  "('a \<Rightarrow> error + int) \<Rightarrow> SFDiskPartTable \<Rightarrow> 'a action list \<Rightarrow> error + SFDiskPartTable" where
  "GPTPartTable_add_all h2b self [] = Inr self"
| "GPTPartTable_add_all h2b self (a # as) =
     (case GPTPartTable_add h2b self a of
        Inl e \<Rightarrow> Inl e
      | Inr (entry, self') \<Rightarrow> GPTPartTable_add_all h2b self' as)"

fun DOSPartTable_add_all ::
  "('a \<Rightarrow> error + int) \<Rightarrow> DOSPartTable \<Rightarrow> 'a action list \<Rightarrow> error + DOSPartTable" where
  "DOSPartTable_add_all h2b self [] = Inr self"
| "DOSPartTable_add_all h2b self (a # as) =
     (case DOSPartTable_add h2b self a of
        Inl e \<Rightarrow> Inl e
      | Inr (entry, self') \<Rightarrow> DOSPartTable_add_all h2b self' as)"

subsection \<open>Wipe planning\<close>

text \<open>\<^verbatim>\<open>action.get('preserve', False)\<close>\<close>

definition get_preserve :: "'a action \<Rightarrow> bool" where
  "get_preserve action = (case a_preserve action of None \<Rightarrow> False | Some p \<Rightarrow> p)"

text \<open>The result \<open>None\<close> is Python's \<^verbatim>\<open>None\<close>: no wipe.\<close>

definition wipe_for_action :: "'a action \<Rightarrow> string option" where
  "wipe_for_action action =
     (case a_wipe action of
        Some w \<Rightarrow> w
      | None \<Rightarrow>
          if get_preserve action then None
          else if a_flag action = Some ''extended'' then None
          else Some ''superblock'')"

subsection \<open>Layout invariant and example actions\<close>

text \<open>
  What the default placement keeps true of a table whose alignment unit is \<open>2 ^ k\<close>
  sectors: every start is a multiple of the unit, and no entry begins before the one
  added before it ends.
\<close>

definition gpt_layout_ok :: "nat \<Rightarrow> PartTableEntry list \<Rightarrow> bool" where
  "gpt_layout_ok k es \<longleftrightarrow>
     (\<forall>e\<in>set es. 2 ^ k dvd start e)
     \<and> successively (\<lambda>e e'. start e + size_sectors e \<le> start e') es"

text \<open>
  A partition action that gives only a flag and a size, the size as an integer number of
  bytes. For such amounts the examples below take \<^verbatim>\<open>human2bytes\<close> to return its
  argument, which is \<open>Inr\<close>.
\<close>

definition partition_action :: "string option \<Rightarrow> int \<Rightarrow> int action" where
  "partition_action f b = \<lparr> a_flag = f, a_offset = None, a_number = None, a_size = Some b,
      a_uuid = None, a_wipe = None, a_preserve = None \<rparr>"

section \<open>The dependency resolver (curtin/storage\_config.py)\<close>

subsection \<open>Storage items and configurations\<close>

text \<open>
  The values of the fields that the resolver reads: a string (an id, a type, a name, a
  path), an integer (a partition number) or a list of ids. A storage item is a dict from
  field names to values. A configuration is the \<^verbatim>\<open>OrderedDict\<close> from ids to items:
  an association list in insertion order. A list cannot be a dict key
  (\<^verbatim>\<open>TypeError: unhashable type\<close>).
\<close>

datatype val = Str string | Num int | Ids "string list"

type_synonym item = "(string \<times> val) list"

type_synonym config = "(val \<times> item) list"

definition hashable :: "val \<Rightarrow> bool" where
  "hashable v = (case v of Ids _ \<Rightarrow> False | _ \<Rightarrow> True)"

text \<open>\<^verbatim>\<open>d.get(k)\<close>\<close>

definition dict_get :: "(val \<times> 'v) list \<Rightarrow> val \<Rightarrow> error + 'v option" where
  "dict_get d k = (if hashable k then Inr (map_of d k) else Inl TypeError)"

text \<open>\<^verbatim>\<open>d[k]\<close>\<close>

definition dict_item :: "(val \<times> 'v) list \<Rightarrow> val \<Rightarrow> error + 'v" where
  "dict_item d k =
     (if hashable k then (case map_of d k of None \<Rightarrow> Inl (KeyError ''item id'') | Some v \<Rightarrow> Inr v)
      else Inl TypeError)"

text \<open>\<^verbatim>\<open>d[k] = v\<close>: a new key goes to the end, a known key keeps its place.\<close>

definition dict_set :: "(val \<times> 'v) list \<Rightarrow> val \<Rightarrow> 'v \<Rightarrow> error + (val \<times> 'v) list" where
  "dict_set d k v = (if hashable k then Inr (AList.update k v d) else Inl TypeError)"

text \<open>\<^verbatim>\<open>cfg[field]\<close> on an item.\<close>

definition item_field :: "string \<Rightarrow> item \<Rightarrow> error + val" where
  "item_field f cfg = (case map_of cfg f of None \<Rightarrow> Inl (KeyError f) | Some v \<Rightarrow> Inr v)"

subsection \<open>Sequencing of calls that may raise\<close>

fun mapM_err :: "('a \<Rightarrow> error + 'b) \<Rightarrow> 'a list \<Rightarrow> error + 'b list" where
  "mapM_err f [] = Inr []"
| "mapM_err f (x # xs) =
     (case f x of
        Inl e \<Rightarrow> Inl e
      | Inr y \<Rightarrow> (case mapM_err f xs of Inl e \<Rightarrow> Inl e | Inr ys \<Rightarrow> Inr (y # ys)))"

fun foldM_err :: "('s \<Rightarrow> 'a \<Rightarrow> error + 's) \<Rightarrow> 's \<Rightarrow> 'a list \<Rightarrow> error + 's" where
  "foldM_err f s [] = Inr s"
| "foldM_err f s (x # xs) = (case f s x of Inl e \<Rightarrow> Inl e | Inr s' \<Rightarrow> foldM_err f s' xs)"

subsection \<open>Python's \<^verbatim>\<open>sorted\<close>\<close>

text \<open>
  \<^verbatim>\<open>sorted(xs, key=k)\<close> first computes every key (a key function that raises ends
  the call), then sorts stably with \<^verbatim>\<open><\<close> on the keys. Integers compare with
  integers, strings with strings (by code point) and lists with lists (lexicographically);
  any other comparison raises \<^verbatim>\<open>TypeError\<close>, and sorting two or more elements always
  compares each of them with another one. \<open>sort_key\<close> is a stable insertion sort.
\<close>

definition num_of :: "val \<Rightarrow> int option" where
  "num_of v = (case v of Num n \<Rightarrow> Some n | _ \<Rightarrow> None)"

definition str_of :: "val \<Rightarrow> string option" where
  "str_of v = (case v of Str s \<Rightarrow> Some s | _ \<Rightarrow> None)"

definition ids_of :: "val \<Rightarrow> string list option" where
  "ids_of v = (case v of Ids l \<Rightarrow> Some l | _ \<Rightarrow> None)"

definition sort_decorated :: "(val \<times> 'a) list \<Rightarrow> error + 'a list" where
  "sort_decorated kxs =
     (if length kxs \<le> 1 then Inr (map snd kxs)
      else case those (map (num_of \<circ> fst) kxs) of
             Some ns \<Rightarrow> Inr (map snd (sort_key fst (zip ns (map snd kxs))))
           | None \<Rightarrow>
        (case those (map (str_of \<circ> fst) kxs) of
             Some ss \<Rightarrow> Inr (map snd (sort_key fst (zip ss (map snd kxs))))
           | None \<Rightarrow>
        (case those (map (ids_of \<circ> fst) kxs) of
             Some ls \<Rightarrow> Inr (map snd (sort_key fst (zip ls (map snd kxs))))
           | None \<Rightarrow> Inl TypeError)))"

text \<open>Python's \<^verbatim>\<open><=\<close> on two values that can be compared.\<close>

definition val_le :: "val \<Rightarrow> val \<Rightarrow> bool" where
  "val_le a b =
     (case (a, b) of
        (Num m, Num n) \<Rightarrow> m \<le> n
      | (Str s, Str t) \<Rightarrow> s \<le> t
      | (Ids k, Ids l) \<Rightarrow> k \<le> l
      | _ \<Rightarrow> False)"

definition py_sorted :: "('a \<Rightarrow> error + val) \<Rightarrow> 'a list \<Rightarrow> error + 'a list" where
  "py_sorted key xs =
     (case mapM_err key xs of
        Inl e \<Rightarrow> Inl e
      | Inr ks \<Rightarrow> sort_decorated (zip ks xs))"

subsection \<open>The type registry\<close>

text \<open>
  \<^verbatim>\<open>_stype_to_deps\<close> returns a set of field names and
  \<^verbatim>\<open>find_item_dependencies\<close> iterates over it: Python fixes no order for that
  iteration, the model takes the order in which the source writes the names.
\<close>

definition depends_keys :: "(string \<times> string list) list" where
  "depends_keys =
    [(''bcache'', [''backing_device'', ''cache_device'']),
     (''dasd'', []),
     (''disk'', []),
     (''dm_crypt'', [''volume'']),
     (''format'', [''volume'']),
     (''lvm_partition'', [''volgroup'']),
     (''lvm_volgroup'', [''devices'']),
     (''mount'', [''device'']),
     (''partition'', [''device'']),
     (''raid'', [''devices'', ''spare_devices'', ''container'']),
     (''zfs'', [''pool'']),
     (''zpool'', [''vdevs''])]"

text \<open>\<^verbatim>\<open>table[stype]\<close> and \<^verbatim>\<open>stype in table\<close> for a table keyed by type names.\<close>

definition table_get :: "(string \<times> 'v) list \<Rightarrow> val option \<Rightarrow> error + 'v option" where
  "table_get table stype =
     (case stype of
        Some (Str s) \<Rightarrow> Inr (map_of table s)
      | Some (Ids _) \<Rightarrow> Inl TypeError
      | _ \<Rightarrow> Inr None)"

definition stype_to_deps :: "val option \<Rightarrow> error + string list" where
  "stype_to_deps stype =
     (case table_get depends_keys stype of
        Inl e \<Rightarrow> Inl e
      | Inr None \<Rightarrow> Inl (KeyError ''stype'')
      | Inr (Some keys) \<Rightarrow> Inr keys)"

text \<open>
  Every order key is a set of one field name, so that
  \<^verbatim>\<open>operator.itemgetter(*list(order))\<close> reads that one field of an item.
\<close>

definition order_key :: "(string \<times> string) list" where
  "order_key =
    [(''bcache'', ''name''),
     (''dasd'', ''id''),
     (''disk'', ''id''),
     (''dm_crypt'', ''id''),
     (''format'', ''id''),
     (''lvm_partition'', ''name''),
     (''lvm_volgroup'', ''name''),
     (''mount'', ''path''),
     (''partition'', ''number''),
     (''raid'', ''id''),
     (''zfs'', ''volume''),
     (''zpool'', ''id'')]"

definition stype_to_order_key :: "val option \<Rightarrow> error + string" where
  "stype_to_order_key stype =
     (case table_get order_key stype of
        Inl e \<Rightarrow> Inl e
      | Inr None \<Rightarrow> Inl (ValueError ''Unknown storage type'')
      | Inr (Some k) \<Rightarrow> Inr k)"

definition depends :: "(string \<times> string list) list" where
  "depends =
    [(''bcache'', [''bcache'', ''disk'', ''dm_crypt'', ''lvm_partition'', ''partition'', ''raid'']),
     (''dasd'', []),
     (''disk'', [''dasd'']),
     (''dm_crypt'', [''bcache'', ''disk'', ''dm_crypt'', ''lvm_partition'', ''partition'', ''raid'']),
     (''format'', [''bcache'', ''disk'', ''dm_crypt'', ''lvm_partition'', ''partition'', ''raid'']),
     (''lvm_partition'', [''lvm_volgroup'']),
     (''lvm_volgroup'', [''bcache'', ''disk'', ''dm_crypt'', ''partition'', ''raid'']),
     (''mount'', [''format'']),
     (''partition'', [''bcache'', ''disk'', ''raid'', ''partition'']),
     (''raid'', [''bcache'', ''disk'', ''dm_crypt'', ''lvm_partition'', ''partition'', ''raid'']),
     (''zfs'', [''zpool'']),
     (''zpool'', [''disk'', ''partition''])]"

definition validate_dep_type :: "val \<Rightarrow> string \<Rightarrow> val \<Rightarrow> config \<Rightarrow> error + bool" where
  "validate_dep_type source_id dep_key dep_id sconfig =
     (case dict_get sconfig source_id of
        Inl e \<Rightarrow> Inl e
      | Inr None \<Rightarrow> Inl (ValueError ''Invalid source_id not in storage config'')
      | Inr (Some source_cfg) \<Rightarrow>
     (case dict_get sconfig dep_id of
        Inl e \<Rightarrow> Inl e
      | Inr None \<Rightarrow> Inl (ValueError ''Invalid dep_id not in storage config'')
      | Inr (Some dep_cfg) \<Rightarrow>
     (case item_field ''type'' source_cfg of
        Inl e \<Rightarrow> Inl e
      | Inr source_type \<Rightarrow>
     (case item_field ''type'' dep_cfg of
        Inl e \<Rightarrow> Inl e
      | Inr dep_type \<Rightarrow>
     (case table_get depends (Some source_type) of
        Inl e \<Rightarrow> Inl e
      | Inr None \<Rightarrow> Inl (ValueError ''Invalid source_type'')
      | Inr (Some source_deps) \<Rightarrow>
     (case table_get depends (Some dep_type) of
        Inl e \<Rightarrow> Inl e
      | Inr None \<Rightarrow> Inl (ValueError ''Invalid type in depedency'')
      | Inr (Some _) \<Rightarrow>
          if dep_type \<in> Str ` set source_deps then Inr True
          else Inl (ValueError ''cannot depend upon'')))))))"

subsection \<open>find\_item\_dependencies\<close>

text \<open>
  The items that have the field \<open>dep_key\<close> equal to \<open>dep\<close>, sorted by the field
  \<open>item_order\<close>, and then the \<^verbatim>\<open>id\<close> of each:
  \<^verbatim>\<open>same_deps\<close>, \<^verbatim>\<open>sdeps_cfgs\<close>, \<^verbatim>\<open>sorted_deps\<close> and the loop that appends.
\<close>

definition find_same_dep :: "string \<Rightarrow> val \<Rightarrow> config \<Rightarrow> val list" where
  "find_same_dep dep_key dep_value config =
     map fst (filter (\<lambda>(item_id, item_cfg). map_of item_cfg dep_key = Some dep_value) config)"

definition sorted_same_deps :: "string \<Rightarrow> val \<Rightarrow> string \<Rightarrow> config \<Rightarrow> error + item list" where
  "sorted_same_deps dep_key dep item_order config =
     (let same_deps = find_same_dep dep_key dep config;
          sdeps_cfgs = map snd (filter (\<lambda>(sdep, cfg). sdep \<in> set same_deps) config)
      in py_sorted (item_field item_order) sdeps_cfgs)"

definition same_dep_ids :: "string \<Rightarrow> val \<Rightarrow> string \<Rightarrow> config \<Rightarrow> error + val list" where
  "same_dep_ids dep_key dep item_order config =
     (case sorted_same_deps dep_key dep item_order config of
        Inl e \<Rightarrow> Inl e
      | Inr sorted_deps \<Rightarrow> mapM_err (item_field ''id'') sorted_deps)"

text \<open>
  The body of the loop over one dependency reference \<open>dep\<close>; \<open>lower\<close> is the
  recursive call. \<^verbatim>\<open>if lower_deps: deps.extend(lower_deps)\<close> adds nothing for
  \<^verbatim>\<open>None\<close> and for the empty list.
\<close>

definition deps_of_dep ::
  "(val \<Rightarrow> error + val list option) \<Rightarrow> val \<Rightarrow> string \<Rightarrow> string \<Rightarrow> val \<Rightarrow> config \<Rightarrow> bool
     \<Rightarrow> error + val list" where
  "deps_of_dep lower item_id item_order dep_key dep config validate =
     (case (if validate then validate_dep_type item_id dep_key dep config else Inr True) of
        Inl e \<Rightarrow> Inl e
      | Inr _ \<Rightarrow>
     (case same_dep_ids dep_key dep item_order config of
        Inl e \<Rightarrow> Inl e
      | Inr sdeps \<Rightarrow>
     (case lower dep of
        Inl e \<Rightarrow> Inl e
      | Inr lower_deps \<Rightarrow>
          Inr (sdeps @ (case lower_deps of None \<Rightarrow> [] | Some l \<Rightarrow> l)))))"

text \<open>
  \<^verbatim>\<open>dep_value\<close> of a field: a value that is not a list is treated as the list of
  that one value.
\<close>

definition dep_values :: "val \<Rightarrow> val list" where
  "dep_values v = (case v of Ids l \<Rightarrow> map Str l | _ \<Rightarrow> [v])"

text \<open>The body of the loop over one dependency field \<open>dep_key\<close>.\<close>

definition deps_of_key ::
  "(val \<Rightarrow> error + val list option) \<Rightarrow> val \<Rightarrow> item \<Rightarrow> string \<Rightarrow> string \<Rightarrow> config \<Rightarrow> bool
     \<Rightarrow> error + val list" where
  "deps_of_key lower item_id item_cfg item_order dep_key config validate =
     (case map_of item_cfg dep_key of
        None \<Rightarrow> Inr []
      | Some v \<Rightarrow>
         (case mapM_err (\<lambda>dep. deps_of_dep lower item_id item_order dep_key dep config validate)
                 (dep_values v) of
            Inl e \<Rightarrow> Inl e
          | Inr found \<Rightarrow> Inr (dep_values v @ concat found)))"

text \<open>
  The recursion of \<^verbatim>\<open>find_item_dependencies\<close> follows the references of the
  configuration and does not end on a configuration with a cycle: Python then raises
  \<^verbatim>\<open>RecursionError\<close>. The first argument is the depth of calls still allowed. The
  recursive call does not pass \<^verbatim>\<open>validate\<close> on, so it validates. The result
  \<open>Inr None\<close> is the return value \<^verbatim>\<open>None\<close>.
\<close>

fun find_item_dependencies :: "nat \<Rightarrow> val \<Rightarrow> config \<Rightarrow> bool \<Rightarrow> error + val list option" where
  "find_item_dependencies 0 item_id config validate = Inl RecursionError"
| "find_item_dependencies (Suc depth) item_id config validate =
     (if config = [] then Inl (ValueError ''Invalid config. Must be non-empty OrderedDict'')
      else case dict_get config item_id of
        Inl e \<Rightarrow> Inl e
      | Inr None \<Rightarrow> Inr None
      | Inr (Some item_cfg) \<Rightarrow>
          if item_cfg = [] then Inr None
          else
            (let item_type = map_of item_cfg ''type'' in
             case stype_to_order_key item_type of
               Inl e \<Rightarrow> Inl e
             | Inr item_order \<Rightarrow>
            (case stype_to_deps item_type of
               Inl e \<Rightarrow> Inl e
             | Inr dep_keys \<Rightarrow>
            (case mapM_err
                    (\<lambda>dep_key. deps_of_key
                       (\<lambda>dep. find_item_dependencies depth dep config True)
                       item_id item_cfg item_order dep_key config validate)
                    dep_keys of
               Inl e \<Rightarrow> Inl e
             | Inr found \<Rightarrow> Inr (Some (concat found))))))"

subsection \<open>get\_config\_tree\<close>

text \<open>
  The argument of \<^verbatim>\<open>extract_storage_ordered_dict\<close> is a dict with the list of items
  under \<^verbatim>\<open>storage\<close>, \<^verbatim>\<open>config\<close>: here \<open>None\<close> when one of the two keys is missing
  or empty.
\<close>

definition extract_storage_ordered_dict :: "item list option \<Rightarrow> error + config" where
  "extract_storage_ordered_dict config =
     (case config of
        None \<Rightarrow> Inl (ValueError ''no storage entry in config'')
      | Some scfg \<Rightarrow>
          if scfg = [] then Inl (ValueError ''invalid storage config data'')
          else foldM_err
                 (\<lambda>od d. case item_field ''id'' d of
                            Inl e \<Rightarrow> Inl e
                          | Inr i \<Rightarrow> dict_set od i d)
                 [] scfg)"

definition get_config_tree :: "nat \<Rightarrow> val \<Rightarrow> item list option \<Rightarrow> error + config" where
  "get_config_tree depth item storage_config =
     (case extract_storage_ordered_dict storage_config of
        Inl e \<Rightarrow> Inl e
      | Inr sconfig \<Rightarrow>
     (case dict_item sconfig item of
        Inl e \<Rightarrow> Inl e
      | Inr item_cfg \<Rightarrow>
     (case find_item_dependencies depth item sconfig True of
        Inl e \<Rightarrow> Inl e
      | Inr None \<Rightarrow> Inl TypeError
      | Inr (Some deps) \<Rightarrow>
          foldM_err
            (\<lambda>item_deps dep. case dict_item sconfig dep of
                                Inl e \<Rightarrow> Inl e
                              | Inr cfg \<Rightarrow> dict_set item_deps dep cfg)
            [(item, item_cfg)] deps)))"

subsection \<open>merge\_config\_trees\_to\_list\<close>

text \<open>
  The registry: for the first key of each tree, the size of the tree and the item, in
  the order in which the trees come. \<^verbatim>\<open>list(tree.keys())[0]\<close> raises
  \<^verbatim>\<open>IndexError\<close> on an empty tree.
\<close>

type_synonym registry = "(val \<times> (nat \<times> item)) list"

fun build_registry :: "config list \<Rightarrow> registry \<Rightarrow> nat \<Rightarrow> error + (registry \<times> nat)" where
  "build_registry [] reg max_level = Inr (reg, max_level)"
| "build_registry (tree # config_trees) reg max_level =
     (case tree of
        [] \<Rightarrow> Inl IndexError
      | (top_item_id, item_cfg) # _ \<Rightarrow>
          (let level = length tree;
               max_level' = (if level > max_level then level else max_level)
           in if top_item_id \<in> fst ` set reg then build_registry config_trees reg max_level'
              else build_registry config_trees (reg @ [(top_item_id, (level, item_cfg))])
                     max_level'))"

text \<open>
  \<^verbatim>\<open>sort_level\<close>: the items grouped by type, the types sorted, and the items of one
  type sorted by the order key of the type. The keys of \<^verbatim>\<open>sreg\<close> are the types in the
  order of their first occurrence.
\<close>

definition type_of_item :: "item \<Rightarrow> error + val" where
  "type_of_item cfg =
     (case item_field ''type'' cfg of
        Inl e \<Rightarrow> Inl e
      | Inr t \<Rightarrow> if hashable t then Inr t else Inl TypeError)"

definition sort_level :: "item list \<Rightarrow> error + item list" where
  "sort_level configs =
     (case mapM_err type_of_item configs of
        Inl e \<Rightarrow> Inl e
      | Inr types \<Rightarrow>
     (case py_sorted Inr (rev (remdups (rev types))) of
        Inl e \<Rightarrow> Inl e
      | Inr sorted_types \<Rightarrow>
     (case mapM_err
             (\<lambda>item_type.
                case stype_to_order_key (Some item_type) of
                  Inl e \<Rightarrow> Inl e
                | Inr iorder \<Rightarrow>
                    py_sorted (item_field iorder)
                      (filter (\<lambda>cfg. map_of cfg ''type'' = Some item_type) configs))
             sorted_types of
        Inl e \<Rightarrow> Inl e
      | Inr groups \<Rightarrow> Inr (concat groups))))"

definition level_configs :: "registry \<Rightarrow> nat \<Rightarrow> item list" where
  "level_configs reg lvl = map (snd \<circ> snd) (filter (\<lambda>(item_id, entry). fst entry = lvl) reg)"

definition merge_config_trees_to_list :: "config list \<Rightarrow> error + item list" where
  "merge_config_trees_to_list config_trees =
     (case build_registry config_trees [] 0 of
        Inl e \<Rightarrow> Inl e
      | Inr (reg, max_level) \<Rightarrow>
     (case mapM_err (\<lambda>lvl. sort_level (level_configs reg lvl)) [0 ..< max_level + 1] of
        Inl e \<Rightarrow> Inl e
      | Inr sconfigs \<Rightarrow> Inr (concat sconfigs)))"

text \<open>
  \<^verbatim>\<open>extract_storage_config\<close> builds one tree for each item of the configuration, in
  order, and merges them.
\<close>

definition config_trees_of :: "nat \<Rightarrow> item list \<Rightarrow> error + config list" where
  "config_trees_of depth ordered =
     mapM_err (\<lambda>cfg. case map_of cfg ''id'' of
                       Some i \<Rightarrow> get_config_tree depth i (Some ordered)
                     | None \<Rightarrow>
                         (case extract_storage_ordered_dict (Some ordered) of
                            Inl e \<Rightarrow> Inl e
                          | Inr sconfig \<Rightarrow> Inl (KeyError ''item id'')))
       ordered"

subsection \<open>Notions used to state the properties\<close>

text \<open>
  The entry that a tree writes into the registry of \<^verbatim>\<open>merge_config_trees_to_list\<close>,
  the ids that the dependency fields of an item name, and the \<^verbatim>\<open>id\<close> of an item.
\<close>

definition registry_entry :: "config \<Rightarrow> val \<times> (nat \<times> item)" where
  "registry_entry tree = (fst (hd tree), (length tree, snd (hd tree)))"




subsection \<open>Example configurations\<close>

text \<open>
  A disk with two partitions, the trees that \<^verbatim>\<open>get_config_tree\<close> builds for them,
  the same partitions with their numbers exchanged, two trees with the same first key,
  and two disks with a cache on a cache.
\<close>

definition example_sda :: item where
  "example_sda = [(''id'', Str ''sda''), (''type'', Str ''disk''), (''ptable'', Str ''gpt'')]"

definition example_sda1 :: item where
  "example_sda1 = [(''id'', Str ''sda1''), (''type'', Str ''partition''),
     (''device'', Str ''sda''), (''number'', Num 1), (''size'', Str ''1GiB'')]"

definition example_sda2 :: item where
  "example_sda2 = [(''id'', Str ''sda2''), (''type'', Str ''partition''),
     (''device'', Str ''sda''), (''number'', Num 2), (''size'', Str ''2GiB'')]"

definition example_config :: "item list" where
  "example_config = [example_sda, example_sda1, example_sda2]"

definition example_trees :: "config list" where
  "example_trees =
     [[(Str ''sda'', example_sda)],
      [(Str ''sda1'', example_sda1), (Str ''sda'', example_sda), (Str ''sda2'', example_sda2)],
      [(Str ''sda2'', example_sda2), (Str ''sda'', example_sda), (Str ''sda1'', example_sda1)]]"




definition duplicate_trees :: "config list" where
  "duplicate_trees =
     [[(Str ''sda1'', example_sda1), (Str ''sda'', example_sda)],
      [(Str ''sda1'', example_sda2)]]"


definition stacked_sdb :: item where
  "stacked_sdb = [(''id'', Str ''sdb''), (''type'', Str ''disk'')]"

definition stacked_sdc :: item where
  "stacked_sdc = [(''id'', Str ''sdc''), (''type'', Str ''disk'')]"

definition stacked_bcache0 :: item where
  "stacked_bcache0 = [(''id'', Str ''bcache0''), (''type'', Str ''bcache''),
     (''name'', Str ''zcache''), (''backing_device'', Str ''sdb''),
     (''cache_device'', Str ''sdc'')]"

definition stacked_bcache1 :: item where
  "stacked_bcache1 = [(''id'', Str ''bcache1''), (''type'', Str ''bcache''),
     (''name'', Str ''acache''), (''backing_device'', Str ''bcache0''),
     (''cache_device'', Str ''sdc'')]"

definition stacked_config :: "item list" where
  "stacked_config = [stacked_sdb, stacked_sdc, stacked_bcache0, stacked_bcache1]"

section \<open>Properties of the layout engine\<close>

subsection \<open>Alignment\<close>

lemma and_not_mask_int: "(a::int) AND NOT (mask n) = a - a mod 2 ^ n"
proof -
  have "a AND NOT (mask n) = push_bit n (drop_bit n a)"
    by (rule bit_eqI) (auto simp: bit_simps)
  moreover have "push_bit n (drop_bit n a) + take_bit n a = a"
    by (rule bits_ident)
  ultimately show ?thesis
    by (simp add: take_bit_eq_mod algebra_simps)
qed

lemma align_up_pow2: "align_up x (2 ^ k) = 2 ^ k * ((x + 2 ^ k - 1) div 2 ^ k)"
  using and_not_mask_int [of "x + 2 ^ k - 1" k]
  by (simp add: align_up_def mask_eq_exp_minus_1 minus_mod_eq_mult_div)

lemma align_up_dvd: "2 ^ k dvd align_up x (2 ^ k)"
  unfolding align_up_pow2 by simp

lemma ceil_mult_ge:
  fixes m :: int
  assumes "0 < m"
  shows "x \<le> m * ((x + m - 1) div m)"
proof -
  have "(x + m - 1) mod m < m" using assms by simp
  moreover have "m * ((x + m - 1) div m) = (x + m - 1) - (x + m - 1) mod m"
    by (simp add: minus_mod_eq_mult_div)
  ultimately show ?thesis by linarith
qed

lemma ceil_mult_least:
  fixes m :: int
  assumes "0 < m" "x \<le> m * q"
  shows "m * ((x + m - 1) div m) \<le> m * q"
proof -
  have "(x + m - 1) div m \<le> (m * q + (m - 1)) div m"
    using assms by (intro zdiv_mono1) simp_all
  also have "(m * q + (m - 1)) div m = q + (m - 1) div m"
    using assms by simp
  also have "(m - 1) div m = 0"
    using assms by (simp add: div_pos_pos_trivial)
  finally show ?thesis using assms by simp
qed

lemma align_up_ge: "x \<le> align_up x (2 ^ k)"
  unfolding align_up_pow2 by (rule ceil_mult_ge) simp

lemma align_up_least:
  assumes "2 ^ k dvd y" "x \<le> y"
  shows "align_up x (2 ^ k) \<le> y"
proof -
  obtain q where y: "y = 2 ^ k * q" using assms(1) by (auto elim: dvdE)
  show ?thesis unfolding align_up_pow2 y
    by (rule ceil_mult_least) (use assms(2) y in simp_all)
qed

lemma align_up_aligned: "2 ^ k dvd x \<Longrightarrow> align_up x (2 ^ k) = x"
  using align_up_least [of k x x] align_up_ge [of x k] by simp

lemma dvd_two_power_nat:
  fixes d :: nat
  shows "d dvd 2 ^ n \<Longrightarrow> \<exists>k\<le>n. d = 2 ^ k"
proof (induction n arbitrary: d)
  case 0
  then show ?case by simp
next
  case (Suc n)
  show ?case
  proof (cases "even d")
    case True
    then obtain d' where d: "d = 2 * d'" by (auto elim: evenE)
    with Suc.prems have "d' dvd 2 ^ n" by simp
    then obtain k where "k \<le> n" "d' = 2 ^ k" using Suc.IH by blast
    then show ?thesis using d by (intro exI[of _ "Suc k"]) simp
  next
    case False
    then have "coprime d (2 ^ Suc n)" by simp
    with Suc.prems have "d = 1"
      by (metis coprime_absorb_left nat_dvd_1_iff_1)
    then show ?thesis by (intro exI[of _ 0]) simp
  qed
qed

lemma init_accepts:
  assumes "SFDiskPartTable_init sb = Inr t"
  shows "sb dvd 2 ^ 20" and "entries t = []" and "sector_bytes t = sb" and "sb \<noteq> 0"
    and "one_mib_sectors t = 2 ^ 20 div int sb"
proof -
  from assms have sb: "sb \<noteq> 0" and m: "(2::int) ^ 20 mod int sb = 0"
    and t: "t = \<lparr> entries = [], sector_bytes = sb, one_mib_sectors = 2 ^ 20 div int sb \<rparr>"
    by (auto simp: SFDiskPartTable_init_def ONE_MIB_BYTES_def split: if_splits)
  from m have "int sb dvd int (2 ^ 20)" by (simp add: dvd_eq_mod_eq_0)
  then show "sb dvd 2 ^ 20" by (simp only: int_dvd_int_iff)
  show "entries t = []" "sector_bytes t = sb" "sb \<noteq> 0"
    "one_mib_sectors t = 2 ^ 20 div int sb" using t sb by simp_all
qed

lemma init_one_mib:
  assumes "SFDiskPartTable_init sb = Inr t"
  shows "\<exists>k\<le>20. one_mib_sectors t = 2 ^ k"
proof -
  obtain j where j: "j \<le> 20" "sb = 2 ^ j"
    using init_accepts(1) [OF assms] dvd_two_power_nat by blast
  have "(2::int) ^ 20 div 2 ^ j = 2 ^ (20 - j)"
    using j(1) by (simp add: power_diff)
  then show ?thesis using init_accepts(5) [OF assms] j by (intro exI[of _ "20 - j"]) simp
qed

text \<open>
  Claim C10. Every sector size that the \<^verbatim>\<open>SFDiskPartTable\<close> constructor accepts
  divides \<open>2 ^ 20\<close>; \<^verbatim>\<open>one_mib_sectors\<close> is then \<open>2 ^ 20\<close> divided by it and a power
  of two, and \<^verbatim>\<open>align_up(x, one_mib_sectors)\<close>, computed with the bit mask, is the
  least multiple of \<^verbatim>\<open>one_mib_sectors\<close> that is at least \<open>x\<close>, for every nonnegative
  integer \<open>x\<close>.
\<close>

theorem align_up_one_mib_sectors_least_multiple:
  assumes "SFDiskPartTable_init sb = Inr t" and "0 \<le> x"
  shows "sb dvd 2 ^ 20 \<and> one_mib_sectors t = 2 ^ 20 div int sb
         \<and> (\<exists>k. one_mib_sectors t = 2 ^ k)
         \<and> one_mib_sectors t dvd align_up x (one_mib_sectors t)
         \<and> x \<le> align_up x (one_mib_sectors t)
         \<and> (\<forall>y. one_mib_sectors t dvd y \<and> x \<le> y \<longrightarrow> align_up x (one_mib_sectors t) \<le> y)"
proof -
  obtain k where k: "one_mib_sectors t = 2 ^ k"
    using init_one_mib [OF assms(1)] by blast
  have "one_mib_sectors t dvd align_up x (one_mib_sectors t)"
    unfolding k by (rule align_up_dvd)
  moreover have "x \<le> align_up x (one_mib_sectors t)"
    unfolding k by (rule align_up_ge)
  moreover have "\<forall>y. one_mib_sectors t dvd y \<and> x \<le> y \<longrightarrow> align_up x (one_mib_sectors t) \<le> y"
    unfolding k by (blast intro: align_up_least)
  ultimately show ?thesis
    using init_accepts(1,5) [OF assms(1)] k by blast
qed

theorem align_up_one_mib_sectors_least_multiple_witness:
  "SFDiskPartTable_init 512 = Inr \<lparr> entries = [], sector_bytes = 512, one_mib_sectors = 2048 \<rparr>
   \<and> (0::int) \<le> 2049
   \<and> (2048::int) dvd align_up 2049 2048
   \<and> 2049 \<le> align_up 2049 2048
   \<and> align_up 2049 2048 \<le> 4096"
proof -
  have h: "SFDiskPartTable_init 512
             = Inr \<lparr> entries = [], sector_bytes = 512, one_mib_sectors = 2048 \<rparr>"
    by (simp add: SFDiskPartTable_init_def ONE_MIB_BYTES_def)
  show ?thesis
    using h align_up_one_mib_sectors_least_multiple [OF h, of 2049] by simp
qed

subsection \<open>Wipe modes\<close>

text \<open>
  Claim C5, as the code has it. An explicit \<^verbatim>\<open>wipe\<close> field of the action is the mode
  chosen, whatever the flag and the \<^verbatim>\<open>preserve\<close> mark. For an action with no
  \<^verbatim>\<open>wipe\<close> field the mode is: none when the action is marked preserve, none when it
  carries the \<^verbatim>\<open>extended\<close> flag, and \<^verbatim>\<open>superblock\<close> for a non-preserved,
  non-extended partition.
\<close>

theorem wipe_for_action_modes:
  "(\<forall>w. a_wipe action = Some w \<longrightarrow> wipe_for_action action = w)
   \<and> (a_wipe action = None \<and> a_flag action = Some ''extended''
        \<longrightarrow> wipe_for_action action = None)
   \<and> (a_wipe action = None \<and> get_preserve action \<longrightarrow> wipe_for_action action = None)
   \<and> (a_wipe action = None \<and> \<not> get_preserve action \<and> a_flag action \<noteq> Some ''extended''
        \<longrightarrow> wipe_for_action action = Some ''superblock'')"
  by (simp add: wipe_for_action_def)

theorem wipe_for_action_modes_witness:
  "wipe_for_action \<lparr> a_flag = Some ''extended'', a_offset = None :: int option,
       a_number = None, a_size = Some 4096, a_uuid = None,
       a_wipe = Some (Some ''zero''), a_preserve = None \<rparr> = Some ''zero''
   \<and> wipe_for_action \<lparr> a_flag = Some ''extended'', a_offset = None :: int option,
       a_number = None, a_size = Some 4096, a_uuid = None,
       a_wipe = None, a_preserve = None \<rparr> = None
   \<and> wipe_for_action \<lparr> a_flag = Some ''linux'', a_offset = None :: int option,
       a_number = None, a_size = Some 4096, a_uuid = None,
       a_wipe = None, a_preserve = Some True \<rparr> = None
   \<and> wipe_for_action \<lparr> a_flag = Some ''linux'', a_offset = None :: int option,
       a_number = None, a_size = Some 4096, a_uuid = None,
       a_wipe = None, a_preserve = Some False \<rparr> = Some ''superblock''"
  using
    wipe_for_action_modes [of "\<lparr> a_flag = Some ''extended'', a_offset = None :: int option,
       a_number = None, a_size = Some 4096, a_uuid = None,
       a_wipe = Some (Some ''zero''), a_preserve = None \<rparr>"]
    wipe_for_action_modes [of "\<lparr> a_flag = Some ''extended'', a_offset = None :: int option,
       a_number = None, a_size = Some 4096, a_uuid = None,
       a_wipe = None, a_preserve = None \<rparr>"]
    wipe_for_action_modes [of "\<lparr> a_flag = Some ''linux'', a_offset = None :: int option,
       a_number = None, a_size = Some 4096, a_uuid = None,
       a_wipe = None, a_preserve = Some True \<rparr>"]
    wipe_for_action_modes [of "\<lparr> a_flag = Some ''linux'', a_offset = None :: int option,
       a_number = None, a_size = Some 4096, a_uuid = None,
       a_wipe = None, a_preserve = Some False \<rparr>"]
  by (simp add: get_preserve_def)

text \<open>
  The claim as the specification words it (none for every action that carries the
  \<^verbatim>\<open>extended\<close> flag) fails on an extended partition with an explicit
  \<^verbatim>\<open>wipe: superblock\<close>.
\<close>

theorem wipe_for_action_extended_counterexample:
  "wipe_for_action \<lparr> a_flag = Some ''extended'', a_offset = None :: int option,
       a_number = None, a_size = Some 4096, a_uuid = None,
       a_wipe = Some (Some ''superblock''), a_preserve = None \<rparr> \<noteq> None"
  by (simp add: wipe_for_action_def)

subsection \<open>Evaluating the layout on examples\<close>

lemma bytes2sectors_Inr:
  "bytes2sectors h2b self amount = Inr s \<longleftrightarrow>
     (\<exists>b. h2b amount = Inr b \<and> sector_bytes self \<noteq> 0 \<and> s = b div int (sector_bytes self))"
  by (auto simp: bytes2sectors_def split: sum.splits)

lemma align_up_2048: "align_up x 2048 = 2048 * ((x + 2047) div 2048)"
  using align_up_pow2 [of x 11] by simp

lemmas layout_eval = GPTPartTable_add_def DOSPartTable_add_def partition_action_def Let_def
  size_of_action_def bytes2sectors_def align_up_2048 get_flag_def

subsection \<open>GPT: default placement\<close>

lemma GPTPartTable_add_no_offset:
  assumes "a_offset action = None"
    and "GPTPartTable_add h2b self action = Inr (entry, self')"
  shows "entries self' = entries self @ [entry]"
    and "sector_bytes self' = sector_bytes self"
    and "one_mib_sectors self' = one_mib_sectors self"
    and "start entry = (if entries self \<noteq> [] then
            align_up (start (last (entries self)) + size_sectors (last (entries self)))
              (one_mib_sectors self)
          else one_mib_sectors self)"
  using assms by (auto simp: GPTPartTable_add_def Let_def split: sum.splits if_splits)

lemma gpt_layout_ok_add:
  assumes "gpt_layout_ok k (entries self)" and "one_mib_sectors self = 2 ^ k"
    and "a_offset action = None"
    and "GPTPartTable_add h2b self action = Inr (entry, self')"
  shows "gpt_layout_ok k (entries self')"
proof (cases "entries self = []")
  case True
  then show ?thesis
    using GPTPartTable_add_no_offset(1,4) [OF assms(3,4)] assms(2)
    by (simp add: gpt_layout_ok_def)
next
  case False
  let ?p = "last (entries self)"
  have s: "start entry = align_up (start ?p + size_sectors ?p) (2 ^ k)"
    using GPTPartTable_add_no_offset(4) [OF assms(3,4)] False assms(2) by simp
  have "2 ^ k dvd start entry" unfolding s by (rule align_up_dvd)
  moreover have "start ?p + size_sectors ?p \<le> start entry"
    unfolding s by (rule align_up_ge)
  ultimately show ?thesis
    using assms(1) False GPTPartTable_add_no_offset(1) [OF assms(3,4)]
    by (simp add: gpt_layout_ok_def successively_append_iff)
qed

lemma gpt_layout_ok_add_all:
  assumes "GPTPartTable_add_all h2b self as = Inr t"
    and "gpt_layout_ok k (entries self)" and "one_mib_sectors self = 2 ^ k"
    and "\<forall>a\<in>set as. a_offset a = None"
  shows "gpt_layout_ok k (entries t) \<and> one_mib_sectors t = 2 ^ k"
  using assms
proof (induction as arbitrary: self)
  case Nil
  then show ?case by simp
next
  case (Cons a as)
  from Cons.prems(1) obtain entry self' where
    add: "GPTPartTable_add h2b self a = Inr (entry, self')"
    and rest: "GPTPartTable_add_all h2b self' as = Inr t"
    by (auto split: sum.splits)
  have a: "a_offset a = None" using Cons.prems(4) by simp
  have "gpt_layout_ok k (entries self')"
    using gpt_layout_ok_add [OF Cons.prems(2,3) a add] .
  moreover have "one_mib_sectors self' = 2 ^ k"
    using GPTPartTable_add_no_offset(3) [OF a add] Cons.prems(3) by simp
  ultimately show ?case using Cons.IH [OF rest] Cons.prems(4) by simp
qed


text \<open>
  Claim C3, as the code has it. For a \<^verbatim>\<open>GPTPartTable\<close> and every sequence of
  \<^verbatim>\<open>add\<close> calls whose actions carry no explicit offset, each start is a multiple
  of the 1 MiB sector count and each entry ends (start + size) at or before the start of
  the next one. The starts are strictly increasing when every entry is at least one
  sector long; an entry of zero sectors is followed by an entry with the same start.
\<close>

theorem gpt_default_layout:
  assumes "SFDiskPartTable_init sb = Inr t0"
    and "GPTPartTable_add_all h2b t0 as = Inr t"
    and "\<forall>a\<in>set as. a_offset a = None"
  shows "(\<forall>e\<in>set (entries t). one_mib_sectors t dvd start e)
       \<and> (\<forall>i. Suc i < length (entries t) \<longrightarrow>
              start (entries t ! i) + size_sectors (entries t ! i) \<le> start (entries t ! Suc i))
       \<and> ((\<forall>e\<in>set (entries t). 0 < size_sectors e) \<longrightarrow> sorted_wrt (<) (map start (entries t)))"
proof -
  obtain k where k: "one_mib_sectors t0 = 2 ^ k"
    using init_one_mib [OF assms(1)] by blast
  have "gpt_layout_ok k (entries t0)"
    using init_accepts(2) [OF assms(1)] by (simp add: gpt_layout_ok_def)
  then have ok: "gpt_layout_ok k (entries t)" and m: "one_mib_sectors t = 2 ^ k"
    using gpt_layout_ok_add_all [OF assms(2) _ k assms(3)] by simp_all
  let ?ends = "\<lambda>e e'. start e + size_sectors e \<le> start e'"
  have succ: "successively ?ends (entries t)"
    using ok by (simp add: gpt_layout_ok_def)
  have strict: "sorted_wrt (<) (map start (entries t))"
    if pos: "\<forall>e\<in>set (entries t). 0 < size_sectors e"
  proof -
    have "successively (\<lambda>e e'. start e < start e') (entries t)"
      by (rule successively_mono [OF succ]) (use pos in force)
    then have "successively (<) (map start (entries t))"
      by (simp add: successively_map)
    then show ?thesis
      by (simp add: successively_conv_sorted_wrt)
  qed
  show ?thesis
    using ok m succ strict by (auto simp: gpt_layout_ok_def dest: successively_nth)
qed


theorem gpt_default_layout_witness:
  "SFDiskPartTable_init 512 = Inr \<lparr> entries = [], sector_bytes = 512, one_mib_sectors = 2048 \<rparr>
   \<and> GPTPartTable_add_all Inr \<lparr> entries = [], sector_bytes = 512, one_mib_sectors = 2048 \<rparr>
        [partition_action None 1000000, partition_action None 100, partition_action None 1048576]
      = Inr \<lparr> entries =
                [\<lparr> number = 1, start = 2048, size_sectors = 1953, type = None, uuid = None,
                    bootable = Some False \<rparr>,
                 \<lparr> number = 2, start = 4096, size_sectors = 0, type = None, uuid = None,
                    bootable = Some False \<rparr>,
                 \<lparr> number = 3, start = 4096, size_sectors = 2048, type = None, uuid = None,
                    bootable = Some False \<rparr>],
              sector_bytes = 512, one_mib_sectors = 2048 \<rparr>
   \<and> (2048::int) dvd 2048 \<and> (2048::int) dvd 4096
   \<and> (2048::int) + 1953 \<le> 4096 \<and> (4096::int) + 0 \<le> 4096"
proof -
  let ?init = "\<lparr> entries = [], sector_bytes = 512, one_mib_sectors = 2048 \<rparr>"
  let ?as = "[partition_action None 1000000, partition_action None 100,
              partition_action None (1048576::int)]"
  let ?final = "\<lparr> entries =
                [\<lparr> number = 1, start = 2048, size_sectors = 1953, type = None, uuid = None,
                    bootable = Some False \<rparr>,
                 \<lparr> number = 2, start = 4096, size_sectors = 0, type = None, uuid = None,
                    bootable = Some False \<rparr>,
                 \<lparr> number = 3, start = 4096, size_sectors = 2048, type = None, uuid = None,
                    bootable = Some False \<rparr>],
              sector_bytes = 512, one_mib_sectors = 2048 \<rparr>"
  have h1: "SFDiskPartTable_init 512 = Inr ?init"
    by (simp add: SFDiskPartTable_init_def ONE_MIB_BYTES_def)
  have h2: "GPTPartTable_add_all Inr ?init ?as = Inr ?final"
    by (simp add: layout_eval)
  have h3: "\<forall>a\<in>set ?as. a_offset a = None"
    by (simp add: partition_action_def)
  show ?thesis
    using h1 h2 gpt_default_layout [OF h1 h2 h3] by (simp add: nth_Cons')
qed

text \<open>
  The claim as the specification words it (strictly increasing starts for every sequence
  of adds) fails for two partitions of 100 bytes each on 512-byte sectors: both are zero
  sectors long and both start at sector 2048.
\<close>

theorem gpt_starts_not_strictly_increasing_counterexample:
  "SFDiskPartTable_init 512 = Inr \<lparr> entries = [], sector_bytes = 512, one_mib_sectors = 2048 \<rparr>
   \<and> map_sum id (\<lambda>t. map start (entries t))
        (GPTPartTable_add_all Inr \<lparr> entries = [], sector_bytes = 512, one_mib_sectors = 2048 \<rparr>
           [partition_action None 100, partition_action None 100])
      = Inr [2048, 2048]
   \<and> \<not> sorted_wrt (<) [2048 :: int, 2048]"
  by (simp add: SFDiskPartTable_init_def ONE_MIB_BYTES_def layout_eval)

subsection \<open>MBR: primary, extended and logical partitions\<close>

lemma DOSPartTable_init_accepts:
  assumes "DOSPartTable_init sb = Inr t"
  shows "extended t = None" and "entries t = []" and "sector_bytes t = sb" and "sb \<noteq> 0"
    and "\<exists>k\<le>20. one_mib_sectors t = 2 ^ k"
    and "one_mib_sectors t * int sb = 2 ^ 20"
proof -
  from assms obtain t' where t': "SFDiskPartTable_init sb = Inr t'"
    and t: "t = SFDiskPartTable.extend t' \<lparr> extended = None \<rparr>"
    by (auto simp: DOSPartTable_init_def split: sum.splits)
  show "extended t = None" "entries t = []" "sector_bytes t = sb" "sb \<noteq> 0"
    using t init_accepts(2,3,4) [OF t'] by (simp_all add: SFDiskPartTable.defs)
  show "\<exists>k\<le>20. one_mib_sectors t = 2 ^ k"
    using t init_one_mib [OF t'] by (simp add: SFDiskPartTable.defs)
  have "int sb dvd int (2 ^ 20)"
    using init_accepts(1) [OF t'] by (simp only: int_dvd_int_iff)
  then show "one_mib_sectors t * int sb = 2 ^ 20"
    using t init_accepts(5) [OF t'] by (simp add: SFDiskPartTable.defs)
qed

lemma DOSPartTable_add_primary:
  assumes "a_flag a \<noteq> Some ''logical''" and "a_offset a = None" and "a_number a = None"
    and "length (entries self) < 4"
    and "a_size a = Some s" and "h2b s = Inr b" and "sector_bytes self \<noteq> 0"
  shows "\<exists>e. DOSPartTable_add h2b self a
           = Inr (e, self\<lparr> entries := entries self @ [e],
                          extended := (if a_flag a = Some ''extended'' then Some e
                                       else extended self) \<rparr>)
         \<and> number e = int (length (entries self)) + 1
         \<and> size_sectors e = b div int (sector_bytes self)
         \<and> start e = (case last_primary None (entries self) of
                         None \<Rightarrow> one_mib_sectors self
                       | Some prev \<Rightarrow> align_up (start prev + size_sectors prev)
                                        (one_mib_sectors self))"
  using assms
  by (simp add: DOSPartTable_add_def Let_def size_of_action_def bytes2sectors_def)

lemma DOSPartTable_add_logical:
  assumes "a_flag a = Some ''logical''" and "a_offset a = None"
    and "extended self = Some ext"
    and "a_size a = Some s" and "h2b s = Inr b" and "sector_bytes self \<noteq> 0"
  shows "\<exists>e. DOSPartTable_add h2b self a
           = Inr (e, self\<lparr> entries := entries self @ [e] \<rparr>)
         \<and> size_sectors e = b div int (sector_bytes self)
         \<and> number e = (case last_logical (entries self) of
                          None \<Rightarrow> 5 | Some prev \<Rightarrow> number prev + 1)
         \<and> start e = (case last_logical (entries self) of
                         None \<Rightarrow> align_up (start ext + one_mib_sectors self)
                                   (one_mib_sectors self)
                       | Some prev \<Rightarrow> align_up (start prev + size_sectors prev
                                                  + one_mib_sectors self)
                                        (one_mib_sectors self))"
  using assms
  by (auto simp: DOSPartTable_add_def Let_def size_of_action_def bytes2sectors_def
           split: option.splits)


text \<open>
  Claim C2. For a \<^verbatim>\<open>DOSPartTable\<close>, adding six partition actions with the flags
  primary, primary, primary, extended, logical, logical and no explicit numbers or
  offsets succeeds (when the sizes convert) and yields entries numbered 1 to 6; the first
  logical entry starts one mebibyte (\<^verbatim>\<open>one_mib_sectors\<close>, which is \<open>2 ^ 20\<close> bytes)
  after the start of the extended entry, and the second starts one mebibyte after the end
  of the first, rounded up to the 1 MiB alignment.
\<close>

theorem dos_six_partitions:
  assumes init: "DOSPartTable_init sb = Inr t0"
    and flags: "map a_flag as = [Some ''primary'', Some ''primary'', Some ''primary'',
                                 Some ''extended'', Some ''logical'', Some ''logical'']"
    and plain: "\<forall>a\<in>set as. a_number a = None \<and> a_offset a = None"
    and sizes: "\<forall>a\<in>set as. \<exists>s b. a_size a = Some s \<and> h2b s = Inr b"
  shows "\<exists>t. DOSPartTable_add_all h2b t0 as = Inr t
           \<and> map number (entries t) = [1, 2, 3, 4, 5, 6]
           \<and> one_mib_sectors t * int sb = 2 ^ 20
           \<and> start (entries t ! 4) = start (entries t ! 3) + one_mib_sectors t
           \<and> start (entries t ! 5)
               = align_up (start (entries t ! 4) + size_sectors (entries t ! 4)
                           + one_mib_sectors t) (one_mib_sectors t)"
proof -
  from flags obtain a1 a2 a3 a4 a5 a6 where as: "as = [a1, a2, a3, a4, a5, a6]"
    and f: "a_flag a1 = Some ''primary''" "a_flag a2 = Some ''primary''"
      "a_flag a3 = Some ''primary''" "a_flag a4 = Some ''extended''"
      "a_flag a5 = Some ''logical''" "a_flag a6 = Some ''logical''"
    by (auto simp: map_eq_Cons_conv)
  obtain k where k: "one_mib_sectors t0 = 2 ^ k"
    using DOSPartTable_init_accepts(5) [OF init] by blast
  note t0 = DOSPartTable_init_accepts(1-4) [OF init]
  from sizes as obtain s1 b1 s2 b2 s3 b3 s4 b4 s5 b5 s6 b6 where
    sz: "a_size a1 = Some s1" "h2b s1 = Inr b1" "a_size a2 = Some s2" "h2b s2 = Inr b2"
      "a_size a3 = Some s3" "h2b s3 = Inr b3" "a_size a4 = Some s4" "h2b s4 = Inr b4"
      "a_size a5 = Some s5" "h2b s5 = Inr b5" "a_size a6 = Some s6" "h2b s6 = Inr b6"
    by auto
  have pl: "a_number a1 = None" "a_offset a1 = None" "a_number a2 = None" "a_offset a2 = None"
    "a_number a3 = None" "a_offset a3 = None" "a_number a4 = None" "a_offset a4 = None"
    "a_number a5 = None" "a_offset a5 = None" "a_number a6 = None" "a_offset a6 = None"
    using plain as by simp_all
  obtain e1 where e1: "DOSPartTable_add h2b t0 a1 = Inr (e1, t0\<lparr> entries := [e1] \<rparr>)"
    "number e1 = 1"
    using DOSPartTable_add_primary [of a1 t0 s1 h2b b1] f pl sz t0 by auto
  let ?t1 = "t0\<lparr> entries := [e1] \<rparr>"
  obtain e2 where e2: "DOSPartTable_add h2b ?t1 a2 = Inr (e2, t0\<lparr> entries := [e1, e2] \<rparr>)"
    "number e2 = 2"
    using DOSPartTable_add_primary [of a2 ?t1 s2 h2b b2] f pl sz t0 by auto
  let ?t2 = "t0\<lparr> entries := [e1, e2] \<rparr>"
  obtain e3 where e3: "DOSPartTable_add h2b ?t2 a3 = Inr (e3, t0\<lparr> entries := [e1, e2, e3] \<rparr>)"
    "number e3 = 3"
    using DOSPartTable_add_primary [of a3 ?t2 s3 h2b b3] f pl sz t0 by auto
  let ?t3 = "t0\<lparr> entries := [e1, e2, e3] \<rparr>"
  obtain e4 where e4: "DOSPartTable_add h2b ?t3 a4
      = Inr (e4, t0\<lparr> entries := [e1, e2, e3, e4], extended := Some e4 \<rparr>)"
    "number e4 = 4"
    "start e4 = align_up (start e3 + size_sectors e3) (2 ^ k)"
    using DOSPartTable_add_primary [of a4 ?t3 s4 h2b b4] f pl sz t0 e1(2) e2(2) e3(2) k by auto
  let ?t4 = "t0\<lparr> entries := [e1, e2, e3, e4], extended := Some e4 \<rparr>"
  obtain e5 where e5: "DOSPartTable_add h2b ?t4 a5
      = Inr (e5, t0\<lparr> entries := [e1, e2, e3, e4, e5], extended := Some e4 \<rparr>)"
    "number e5 = 5"
    "start e5 = align_up (start e4 + 2 ^ k) (2 ^ k)"
    using DOSPartTable_add_logical [of a5 ?t4 e4 s5 h2b b5] f pl sz t0 e1(2) e2(2) e3(2) e4(2) k
    by auto
  let ?t5 = "t0\<lparr> entries := [e1, e2, e3, e4, e5], extended := Some e4 \<rparr>"
  obtain e6 where e6: "DOSPartTable_add h2b ?t5 a6
      = Inr (e6, t0\<lparr> entries := [e1, e2, e3, e4, e5, e6], extended := Some e4 \<rparr>)"
    "number e6 = 6"
    "start e6 = align_up (start e5 + size_sectors e5 + 2 ^ k) (2 ^ k)"
    using DOSPartTable_add_logical [of a6 ?t5 e4 s6 h2b b6] f pl sz t0 e1(2) e2(2) e3(2) e4(2) e5(2) k
    by auto
  let ?t6 = "t0\<lparr> entries := [e1, e2, e3, e4, e5, e6], extended := Some e4 \<rparr>"
  have run: "DOSPartTable_add_all h2b t0 as = Inr ?t6"
    by (simp add: as e1(1) e2(1) e3(1) e4(1) e5(1) e6(1))
  have "2 ^ k dvd start e4 + (2 ^ k :: int)"
    unfolding e4(3) by (intro dvd_add align_up_dvd) simp
  then have s5: "start e5 = start e4 + 2 ^ k"
    unfolding e5(3) by (rule align_up_aligned)
  have mib: "2 ^ k * int sb = 2 ^ 20"
    using DOSPartTable_init_accepts(6) [OF init] k by simp
  show ?thesis
    by (rule exI [of _ ?t6]) (simp add: run e1(2) e2(2) e3(2) e4(2) e5(2) e6(2) s5 e6(3) k mib)
qed

theorem dos_six_partitions_witness:
  "DOSPartTable_init 512
     = Inr \<lparr> entries = [], sector_bytes = 512, one_mib_sectors = 2048, extended = None \<rparr>
   \<and> (\<exists>t. DOSPartTable_add_all Inr
             \<lparr> entries = [], sector_bytes = 512, one_mib_sectors = 2048, extended = None \<rparr>
             [partition_action (Some ''primary'') 1048576,
              partition_action (Some ''primary'') 1048576,
              partition_action (Some ''primary'') 1048576,
              partition_action (Some ''extended'') 8388608,
              partition_action (Some ''logical'') 1000000,
              partition_action (Some ''logical'') 1048576] = Inr t
          \<and> map number (entries t) = [1, 2, 3, 4, 5, 6]
          \<and> one_mib_sectors t * int 512 = 2 ^ 20
          \<and> start (entries t ! 4) = start (entries t ! 3) + one_mib_sectors t
          \<and> start (entries t ! 5)
              = align_up (start (entries t ! 4) + size_sectors (entries t ! 4)
                          + one_mib_sectors t) (one_mib_sectors t))"
proof -
  let ?as = "[partition_action (Some ''primary'') 1048576,
              partition_action (Some ''primary'') 1048576,
              partition_action (Some ''primary'') 1048576,
              partition_action (Some ''extended'') 8388608,
              partition_action (Some ''logical'') 1000000,
              partition_action (Some ''logical'') 1048576]"
  have h1: "DOSPartTable_init 512
     = Inr \<lparr> entries = [], sector_bytes = 512, one_mib_sectors = 2048, extended = None \<rparr>"
    by (simp add: DOSPartTable_init_def SFDiskPartTable_init_def ONE_MIB_BYTES_def
          SFDiskPartTable.defs)
  have h2: "map a_flag ?as = [Some ''primary'', Some ''primary'', Some ''primary'',
                                 Some ''extended'', Some ''logical'', Some ''logical'']"
    by (simp add: partition_action_def)
  have h3: "\<forall>a\<in>set ?as. a_number a = None \<and> a_offset a = None"
    by (simp add: partition_action_def)
  have h4: "\<forall>a\<in>set ?as. \<exists>s b. a_size a = Some s \<and> (Inr :: int \<Rightarrow> error + int) s = Inr b"
    by (simp add: partition_action_def)
  show ?thesis
    using h1 dos_six_partitions [OF h1 h2 h3 h4] by simp
qed

lemma dos_six_partitions_example:
  "map_sum id (\<lambda>t. map (\<lambda>e. (number e, start e, size_sectors e)) (entries t))
    (DOSPartTable_add_all Inr
             \<lparr> entries = [], sector_bytes = 512, one_mib_sectors = 2048, extended = None \<rparr>
             [partition_action (Some ''primary'') 1048576,
              partition_action (Some ''primary'') 1048576,
              partition_action (Some ''primary'') 1048576,
              partition_action (Some ''extended'') 8388608,
              partition_action (Some ''logical'') 1000000,
              partition_action (Some ''logical'') 1048576])
   = Inr [(1, 2048, 2048), (2, 4096, 2048), (3, 6144, 2048), (4, 8192, 16384),
          (5, 10240, 1953), (6, 14336, 2048)]"
  by (simp add: layout_eval)

lemma DOSPartTable_add_keeps:
  assumes "DOSPartTable_add h2b self action = Inr (entry, self')"
  shows "entries self' = entries self @ [entry]"
    and "sector_bytes self' = sector_bytes self"
    and "one_mib_sectors self' = one_mib_sectors self"
    and "extended self' = (if a_flag action = Some ''extended'' then Some entry else extended self)"
  using assms
  by (auto simp: DOSPartTable_add_def Let_def split: sum.splits if_splits option.splits prod.splits)

lemma DOSPartTable_add_all_no_extended:
  assumes "DOSPartTable_add_all h2b self as = Inr t"
    and "extended self = None"
    and "\<forall>a\<in>set as. a_flag a \<noteq> Some ''extended''"
  shows "extended t = None \<and> sector_bytes t = sector_bytes self"
  using assms
proof (induction as arbitrary: self)
  case Nil
  then show ?case by simp
next
  case (Cons a as)
  from Cons.prems(1) obtain entry self' where
    add: "DOSPartTable_add h2b self a = Inr (entry, self')"
    and rest: "DOSPartTable_add_all h2b self' as = Inr t"
    by (auto split: sum.splits)
  have "extended self' = None" "sector_bytes self' = sector_bytes self"
    using DOSPartTable_add_keeps(2,4) [OF add] Cons.prems(2,3) by simp_all
  then show ?case using Cons.IH [OF rest] Cons.prems(3) by simp
qed

lemma DOSPartTable_add_logical_no_extended:
  assumes "extended self = None" and "a_flag action = Some ''logical''"
  shows "\<exists>e. DOSPartTable_add h2b self action = Inl e"
    and "(case a_offset action of None \<Rightarrow> True
          | Some off \<Rightarrow> \<exists>s. bytes2sectors h2b self off = Inr s)
         \<Longrightarrow> DOSPartTable_add h2b self action = Inl LogicalWithoutExtended"
  using assms
  by (auto simp: DOSPartTable_add_def Let_def split: sum.splits option.splits)


text \<open>
  Claim C7. For a \<^verbatim>\<open>DOSPartTable\<close> in any state reached by adding actions none of
  which carried the \<^verbatim>\<open>extended\<close> flag, \<^verbatim>\<open>add\<close> with an action flagged
  \<^verbatim>\<open>logical\<close> fails and returns no table, so that no entry is appended. The
  error is the one for a logical partition without an extended partition whenever the
  action has no explicit offset, or an offset that \<^verbatim>\<open>util.human2bytes\<close> converts:
  the conversion of an explicit offset is the only step of \<^verbatim>\<open>add\<close> before that
  check, and an offset it refuses raises its own error first.
\<close>

theorem logical_without_extended_fails:
  assumes "DOSPartTable_init sb = Inr t0"
    and "DOSPartTable_add_all h2b t0 as = Inr self"
    and "\<forall>a\<in>set as. a_flag a \<noteq> Some ''extended''"
    and "a_flag action = Some ''logical''"
  shows "(\<exists>e. DOSPartTable_add h2b self action = Inl e)
       \<and> ((case a_offset action of None \<Rightarrow> True | Some off \<Rightarrow> \<exists>b. h2b off = Inr b)
            \<longrightarrow> DOSPartTable_add h2b self action = Inl LogicalWithoutExtended)"
proof -
  have ext: "extended self = None" and sb: "sector_bytes self \<noteq> 0"
    using DOSPartTable_add_all_no_extended [OF assms(2) DOSPartTable_init_accepts(1) [OF assms(1)] assms(3)]
      DOSPartTable_init_accepts(3,4) [OF assms(1)] by simp_all
  have "DOSPartTable_add h2b self action = Inl LogicalWithoutExtended"
    if "case a_offset action of None \<Rightarrow> True | Some off \<Rightarrow> \<exists>b. h2b off = Inr b"
    by (rule DOSPartTable_add_logical_no_extended(2) [OF ext assms(4)])
       (use that sb in \<open>auto simp: bytes2sectors_Inr split: option.splits\<close>)
  then show ?thesis
    using DOSPartTable_add_logical_no_extended(1) [OF ext assms(4)] by blast
qed

theorem logical_without_extended_fails_witness:
  "DOSPartTable_add Inr
     \<lparr> entries = [\<lparr> number = 1, start = 2048, size_sectors = 2048, type = None, uuid = None,
                    bootable = None \<rparr>],
       sector_bytes = 512, one_mib_sectors = 2048, extended = None \<rparr>
     (partition_action (Some ''logical'') 1048576) = Inl LogicalWithoutExtended"
proof -
  let ?init = "\<lparr> entries = [], sector_bytes = 512, one_mib_sectors = 2048, extended = None \<rparr>"
  let ?one = "\<lparr> entries = [\<lparr> number = 1, start = 2048, size_sectors = 2048, type = None,
                    uuid = None, bootable = None \<rparr>],
       sector_bytes = 512, one_mib_sectors = 2048, extended = None \<rparr>"
  have h1: "DOSPartTable_init 512 = Inr ?init"
    by (simp add: DOSPartTable_init_def SFDiskPartTable_init_def ONE_MIB_BYTES_def
          SFDiskPartTable.defs)
  have h2: "DOSPartTable_add_all Inr ?init [partition_action (Some ''primary'') 1048576] = Inr ?one"
    by (simp add: layout_eval FLAG_TO_MBR_TYPE_def GPT_GUID_TO_CURTIN_MAP_def)
  have h3: "\<forall>a\<in>set [partition_action (Some ''primary'') (1048576::int)]. a_flag a \<noteq> Some ''extended''"
    by (simp add: partition_action_def)
  have h4: "a_flag (partition_action (Some ''logical'') (1048576::int)) = Some ''logical''"
    by (simp add: partition_action_def)
  show ?thesis
    using logical_without_extended_fails [OF h1 h2 h3 h4]
    by (simp add: partition_action_def)
qed

text \<open>
  An explicit offset that \<^verbatim>\<open>util.human2bytes\<close> refuses: the error of a logical
  action on a table without extended partition is then the one of the conversion.
\<close>

theorem logical_unconvertible_offset_counterexample:
  "DOSPartTable_init 512
     = Inr \<lparr> entries = [], sector_bytes = 512, one_mib_sectors = 2048, extended = None \<rparr>
   \<and> DOSPartTable_add
       (\<lambda>amount. if amount = ''1M'' then Inr 1048576 else Inl (ValueError ''human2bytes''))
       \<lparr> entries = [], sector_bytes = 512, one_mib_sectors = 2048, extended = None \<rparr>
       \<lparr> a_flag = Some ''logical'', a_offset = Some ''1.5B'', a_number = None,
         a_size = Some ''1M'', a_uuid = None, a_wipe = None, a_preserve = None \<rparr>
     = Inl (ValueError ''human2bytes'')"
  by (simp add: DOSPartTable_init_def SFDiskPartTable_init_def ONE_MIB_BYTES_def
        SFDiskPartTable.defs DOSPartTable_add_def bytes2sectors_def Let_def)

section \<open>Properties of the dependency resolver\<close>

subsection \<open>Sequencing and sorting\<close>

lemma mapM_err_length: "mapM_err f xs = Inr ys \<Longrightarrow> length ys = length xs"
  by (induction xs arbitrary: ys) (auto split: sum.splits)

lemma mapM_err_in:
  "mapM_err f xs = Inr ys \<Longrightarrow> x \<in> set xs \<Longrightarrow> \<exists>y\<in>set ys. f x = Inr y"
  by (induction xs arbitrary: ys) (auto split: sum.splits)

lemma mapM_err_total:
  "(\<And>x. x \<in> set xs \<Longrightarrow> \<exists>y. f x = Inr y) \<Longrightarrow> \<exists>ys. mapM_err f xs = Inr ys"
proof (induction xs)
  case Nil
  then show ?case by simp
next
  case (Cons a xs)
  obtain y where "f a = Inr y" using Cons.prems [of a] by auto
  moreover obtain ys where "mapM_err f xs = Inr ys" using Cons by auto
  ultimately show ?case by simp
qed

lemma mapM_err_mono:
  assumes "mapM_err f xs = Inr ys"
    and "\<And>x y. x \<in> set xs \<Longrightarrow> f x = Inr y \<Longrightarrow> g x = Inr y"
  shows "mapM_err g xs = Inr ys"
  using assms by (induction xs arbitrary: ys) (auto split: sum.splits)

lemma mapM_err_proj:
  assumes "mapM_err f xs = Inr ys"
  shows "ys = map (\<lambda>x. projr (f x)) xs"
  using assms by (induction xs arbitrary: ys) (auto split: sum.splits)

lemma insort_key_map_decorate:
  "insort_key fst (g x, x) (map (\<lambda>x. (g x, x)) ys) = map (\<lambda>x. (g x, x)) (insort_key g x ys)"
  by (induction ys) auto

lemma sort_key_decorate:
  "sort_key fst (map (\<lambda>x. (g x, x)) xs) = map (\<lambda>x. (g x, x)) (sort_key g xs)"
  by (induction xs) (auto simp: insort_key_map_decorate)

lemma zip_map_decorate: "zip (map g xs) xs = map (\<lambda>x. (g x, x)) xs"
  by (induction xs) auto

lemma those_map_Some:
  "those (map h xs) = Some ys \<Longrightarrow> ys = map (the \<circ> h) xs \<and> (\<forall>x\<in>set xs. h x \<noteq> None)"
  by (induction xs arbitrary: ys) (auto split: option.splits)

lemma sort_decorated_cases:
  assumes "sort_decorated (zip (map K xs) xs) = Inr ys"
  shows "(length xs \<le> 1 \<and> ys = xs)
       \<or> (\<exists>g. (\<forall>x\<in>set xs. K x = Num (g x)) \<and> ys = sort_key g xs)
       \<or> (\<exists>g. (\<forall>x\<in>set xs. K x = Str (g x)) \<and> ys = sort_key g xs)
       \<or> (\<exists>g. (\<forall>x\<in>set xs. K x = Ids (g x)) \<and> ys = sort_key g xs)"
proof (cases "length xs \<le> 1")
  case True
  then show ?thesis using assms by (simp add: sort_decorated_def zip_map_decorate comp_def)
next
  case False
  have fst_zip: "map (h \<circ> fst) (zip (map K xs) xs) = map (h \<circ> K) xs" for h :: "val \<Rightarrow> 'c option"
    by (simp add: zip_map_decorate comp_def)
  have snd_zip: "map snd (zip (map K xs) xs) = xs"
    by (simp add: zip_map_decorate comp_def)
  have key: "ys = sort_key (the \<circ> (h \<circ> K)) xs"
    if "those (map (h \<circ> K) xs) = Some ns"
      and "ys = map snd (sort_key fst (zip ns xs))" for h :: "val \<Rightarrow> ('c::linorder) option" and ns
  proof -
    have "ns = map (the \<circ> (h \<circ> K)) xs"
      using those_map_Some [OF that(1)] by simp
    then show ?thesis using that(2) by (simp add: zip_map_decorate sort_key_decorate comp_def)
  qed
  have val: "\<forall>x\<in>set xs. (h \<circ> K) x \<noteq> None" if "those (map (h \<circ> K) xs) = Some ns"
    for h :: "val \<Rightarrow> 'c option" and ns
    using those_map_Some [OF that] by simp
  have len: "\<not> length (zip (map K xs) xs) \<le> 1" using False by simp
  consider (num) ns where "those (map (num_of \<circ> K) xs) = Some ns"
      "ys = map snd (sort_key fst (zip ns xs))"
    | (str) ss where "those (map (str_of \<circ> K) xs) = Some ss"
      "ys = map snd (sort_key fst (zip ss xs))"
    | (ids) ls where "those (map (ids_of \<circ> K) xs) = Some ls"
      "ys = map snd (sort_key fst (zip ls xs))"
    using assms unfolding sort_decorated_def fst_zip snd_zip if_not_P [OF len]
    by (auto split: option.splits)
  then show ?thesis
  proof cases
    case num
    have "\<forall>x\<in>set xs. K x = Num ((the \<circ> (num_of \<circ> K)) x)"
      using val [OF num(1)] by (auto simp: num_of_def split: val.splits)
    then show ?thesis using key [OF num] by blast
  next
    case str
    have "\<forall>x\<in>set xs. K x = Str ((the \<circ> (str_of \<circ> K)) x)"
      using val [OF str(1)] by (auto simp: str_of_def split: val.splits)
    then show ?thesis using key [OF str] by blast
  next
    case ids
    have "\<forall>x\<in>set xs. K x = Ids ((the \<circ> (ids_of \<circ> K)) x)"
      using val [OF ids(1)] by (auto simp: ids_of_def split: val.splits)
    then show ?thesis using key [OF ids] by blast
  qed
qed

lemma sorted_wrt_sort_key_le:
  fixes g :: "'a \<Rightarrow> 'k::linorder"
  shows "sorted_wrt (\<lambda>a b. g a \<le> g b) (sort_key g xs)"
  using sorted_sort_key [of g xs] by (simp add: sorted_map)

lemma py_sorted_props:
  assumes "py_sorted key xs = Inr ys"
  shows "mset ys = mset xs"
    and "sorted_wrt (\<lambda>a b. \<exists>ka kb. key a = Inr ka \<and> key b = Inr kb \<and> val_le ka kb) ys"
    and "\<forall>x\<in>set xs. \<exists>k. key x = Inr k"
proof -
  from assms obtain ks where ks: "mapM_err key xs = Inr ks"
    and sd: "sort_decorated (zip ks xs) = Inr ys"
    by (auto simp: py_sorted_def split: sum.splits)
  define K where "K = (\<lambda>x. projr (key x))"
  have ksK: "ks = map K xs" using mapM_err_proj [OF ks] by (simp add: K_def)
  have keyK: "key x = Inr (K x)" if "x \<in> set xs" for x
    using mapM_err_in [OF ks that] by (auto simp: K_def)
  show "\<forall>x\<in>set xs. \<exists>k. key x = Inr k" using keyK by blast
  note cases = sort_decorated_cases [OF sd [unfolded ksK]]
  from cases show m: "mset ys = mset xs" by auto
  let ?R = "\<lambda>a b. \<exists>ka kb. key a = Inr ka \<and> key b = Inr kb \<and> val_le ka kb"
  have mono: "sorted_wrt ?R (sort_key g xs)"
    if "\<And>a b. a \<in> set xs \<Longrightarrow> b \<in> set xs \<Longrightarrow> g a \<le> g b \<Longrightarrow> val_le (K a) (K b)"
    for g :: "'a \<Rightarrow> 'k::linorder"
  proof (rule sorted_wrt_mono_rel [OF _ sorted_wrt_sort_key_le [of g xs]])
    fix a b assume "a \<in> set (sort_key g xs)" "b \<in> set (sort_key g xs)" "g a \<le> g b"
    then have "a \<in> set xs" "b \<in> set xs" "g a \<le> g b" by simp_all
    then show "?R a b" using that keyK by blast
  qed
  from cases show "sorted_wrt ?R ys"
  proof (elim disjE exE conjE)
    assume "length xs \<le> 1" "ys = xs"
    then show ?thesis
      by (cases xs) (auto simp: le_Suc_eq)
  next
    fix g assume "\<forall>x\<in>set xs. K x = Num (g x)" "ys = sort_key g xs"
    then show ?thesis using mono [of g] by (simp add: val_le_def)
  next
    fix g assume "\<forall>x\<in>set xs. K x = Str (g x)" "ys = sort_key g xs"
    then show ?thesis using mono [of g] by (simp add: val_le_def)
  next
    fix g assume "\<forall>x\<in>set xs. K x = Ids (g x)" "ys = sort_key g xs"
    then show ?thesis using mono [of g] by (simp add: val_le_def)
  qed
qed

text \<open>Grouping a list by the value of a function and concatenating the groups.\<close>

lemma mset_concat_groups:
  assumes "distinct ks"
  shows "mset (concat (map (\<lambda>k. filter (\<lambda>x. f x = k) xs) ks)) = mset (filter (\<lambda>x. f x \<in> set ks) xs)"
  using assms
proof (induction ks)
  case Nil
  then show ?case by simp
next
  case (Cons k ks)
  have "mset (filter (\<lambda>x. f x \<in> set (k # ks)) xs)
      = mset (filter (\<lambda>x. f x = k) xs) + mset (filter (\<lambda>x. f x \<in> set ks) xs)"
    using Cons.prems by (induction xs) auto
  then show ?case using Cons by simp
qed

lemma mset_concat_mapM:
  assumes "mapM_err F ks = Inr groups"
    and "\<And>k g. k \<in> set ks \<Longrightarrow> F k = Inr g \<Longrightarrow> mset g = mset (G k)"
  shows "mset (concat groups) = mset (concat (map G ks))"
  using assms
proof (induction ks arbitrary: groups)
  case Nil
  then show ?case by simp
next
  case (Cons k ks)
  from Cons.prems(1) obtain g gs where g: "F k = Inr g" and gs: "mapM_err F ks = Inr gs"
    and groups: "groups = g # gs"
    by (auto split: sum.splits)
  have "mset (concat gs) = mset (concat (map G ks))"
    by (rule Cons.IH [OF gs]) (use Cons.prems(2) in auto)
  then show ?case using Cons.prems(2) [of k g] g groups by simp
qed

subsection \<open>Levels and the registry\<close>

lemma type_of_item_Inr:
  "type_of_item cfg = Inr t \<Longrightarrow> map_of cfg ''type'' = Some t"
  by (auto simp: type_of_item_def item_field_def split: option.splits if_splits)

lemma sort_level_mset:
  assumes "sort_level configs = Inr ys"
  shows "mset ys = mset configs"
proof -
  let ?f = "\<lambda>cfg. map_of cfg ''type''"
  from assms obtain types sorted_types groups where
    types: "mapM_err type_of_item configs = Inr types"
    and st: "py_sorted Inr (rev (remdups (rev types))) = Inr sorted_types"
    and groups: "mapM_err
             (\<lambda>item_type.
                case stype_to_order_key (Some item_type) of
                  Inl e \<Rightarrow> Inl e
                | Inr iorder \<Rightarrow>
                    py_sorted (item_field iorder)
                      (filter (\<lambda>cfg. ?f cfg = Some item_type) configs))
             sorted_types = Inr groups"
    and ys: "ys = concat groups"
    by (auto simp: sort_level_def split: sum.splits)
  have "mset sorted_types = mset (rev (remdups (rev types)))"
    by (rule py_sorted_props(1) [OF st])
  then have d: "distinct sorted_types" and s: "set sorted_types = set types"
    by (metis distinct_rev distinct_remdups mset_eq_imp_distinct_iff,
        metis set_rev set_remdups mset_eq_setD)
  have cover: "?f cfg \<in> Some ` set sorted_types" if "cfg \<in> set configs" for cfg
    using mapM_err_in [OF types that] s by (auto dest: type_of_item_Inr)
  have "mset (concat groups)
      = mset (concat (map (\<lambda>t. filter (\<lambda>cfg. ?f cfg = Some t) configs) sorted_types))"
    by (rule mset_concat_mapM [OF groups])
       (auto split: sum.splits dest: py_sorted_props(1))
  also have "concat (map (\<lambda>t. filter (\<lambda>cfg. ?f cfg = Some t) configs) sorted_types)
      = concat (map (\<lambda>k. filter (\<lambda>cfg. ?f cfg = k) configs) (map Some sorted_types))"
    by (simp add: comp_def)
  also have "mset \<dots> = mset (filter (\<lambda>cfg. ?f cfg \<in> set (map Some sorted_types)) configs)"
    by (rule mset_concat_groups) (simp add: distinct_map d)
  also have "filter (\<lambda>cfg. ?f cfg \<in> set (map Some sorted_types)) configs = configs"
    using cover by (simp add: filter_id_conv)
  finally show ?thesis using ys by simp
qed

lemma concat_nth_order:
  assumes "a < b" and "b < length xss" and "x \<in> set (xss ! a)" and "y \<in> set (xss ! b)"
  shows "\<exists>i j. i < j \<and> j < length (concat xss) \<and> concat xss ! i = x \<and> concat xss ! j = y"
proof -
  let ?pre = "concat (take b xss)"
  have split: "xss = take b xss @ (xss ! b) # drop (Suc b) xss"
    using assms(2) by (simp add: id_take_nth_drop)
  have cc: "concat xss = ?pre @ (xss ! b) @ concat (drop (Suc b) xss)"
    by (subst split) simp
  have "xss ! a \<in> set (take b xss)"
    using assms(1,2) by (metis in_set_conv_nth length_take min_less_iff_conj nth_take order_less_trans)
  then have "x \<in> set ?pre" using assms(3) by auto
  then obtain i where i: "i < length ?pre" "?pre ! i = x" by (meson in_set_conv_nth)
  obtain j where j: "j < length (xss ! b)" "(xss ! b) ! j = y"
    using assms(4) by (meson in_set_conv_nth)
  have "concat xss ! i = x" using i by (subst cc) (simp add: nth_append)
  moreover have "concat xss ! (length ?pre + j) = y"
    using j by (subst cc) (simp add: nth_append)
  moreover have "length (concat xss)
      = length ?pre + length (xss ! b) + length (concat (drop (Suc b) xss))"
    by (subst cc) simp
  then have "length ?pre + j < length (concat xss)"
    using j by simp
  ultimately show ?thesis using i(1) by (intro exI [of _ i] exI [of _ "length ?pre + j"]) simp
qed

lemma build_registry_props:
  assumes "build_registry trees reg m = Inr (reg', m')"
    and "distinct (map fst reg)" and "\<forall>e\<in>set reg. fst (snd e) \<le> m"
  shows "distinct (map fst reg')
       \<and> (\<forall>e\<in>set reg'. fst (snd e) \<le> m')
       \<and> [] \<notin> set trees
       \<and> map_of reg' = (\<lambda>k. case map_of reg k of Some e \<Rightarrow> Some e
                                | None \<Rightarrow> map_of (map registry_entry trees) k)"
  using assms
proof (induction trees arbitrary: reg m)
  case Nil
  then show ?case by (auto split: option.splits)
next
  case (Cons tree trees)
  from Cons.prems(1) obtain k c rest where tree: "tree = (k, c) # rest"
    by (cases tree) auto
  let ?m = "if length tree > m then length tree else m"
  let ?e = "(length tree, c)"
  have entry: "registry_entry tree = (k, ?e)" by (simp add: registry_entry_def tree)
  show ?case
  proof (cases "k \<in> fst ` set reg")
    case True
    then have run: "build_registry trees reg ?m = Inr (reg', m')"
      using Cons.prems(1) by (cases "m < length tree") (simp_all add: tree Let_def)
    have le: "\<forall>e\<in>set reg. fst (snd e) \<le> ?m" using Cons.prems(3) by auto
    note ih = Cons.IH [OF run Cons.prems(2) le]
    from True have "map_of reg k \<noteq> None" by (simp add: map_of_eq_None_iff)
    then have "(\<lambda>k'. case map_of reg k' of Some e \<Rightarrow> Some e
                       | None \<Rightarrow> map_of (map registry_entry trees) k')
             = (\<lambda>k'. case map_of reg k' of Some e \<Rightarrow> Some e
                       | None \<Rightarrow> map_of (map registry_entry (tree # trees)) k')"
      by (auto simp: fun_eq_iff entry split: option.splits)
    then show ?thesis using ih by (simp add: tree)
  next
    case False
    let ?reg = "reg @ [(k, ?e)]"
    have run: "build_registry trees ?reg ?m = Inr (reg', m')"
      using Cons.prems(1) False by (cases "m < length tree") (simp_all add: tree Let_def)
    have d: "distinct (map fst ?reg)" using Cons.prems(2) False by simp
    have le: "\<forall>e\<in>set ?reg. fst (snd e) \<le> ?m" using Cons.prems(3) by auto
    note ih = Cons.IH [OF run d le]
    from False have none: "map_of reg k = None" by (simp add: map_of_eq_None_iff)
    have "(\<lambda>k'. case map_of ?reg k' of Some e \<Rightarrow> Some e
                       | None \<Rightarrow> map_of (map registry_entry trees) k')
             = (\<lambda>k'. case map_of reg k' of Some e \<Rightarrow> Some e
                       | None \<Rightarrow> map_of (map registry_entry (tree # trees)) k')"
      using none by (auto simp: fun_eq_iff entry map_add_def split: option.splits)
    then show ?thesis using ih by (simp add: tree)
  qed
qed

lemma mapM_err_nth:
  "mapM_err f xs = Inr ys \<Longrightarrow> i < length xs \<Longrightarrow> f (xs ! i) = Inr (ys ! i)"
proof (induction xs arbitrary: ys i)
  case Nil
  then show ?case by simp
next
  case (Cons x xs)
  then show ?case by (cases i) (auto split: sum.splits)
qed

lemma level_configs_concat:
  assumes "\<forall>e\<in>set reg. fst (snd e) \<le> m"
  shows "mset (concat (map (level_configs reg) [0 ..< m + 1])) = mset (map (snd \<circ> snd) reg)"
proof -
  let ?f = "\<lambda>e :: val \<times> nat \<times> item. fst (snd e)"
  let ?groups = "map (\<lambda>lvl. filter (\<lambda>e. ?f e = lvl) reg) [0 ..< m + 1]"
  have eq: "level_configs reg = (\<lambda>lvl. map (snd \<circ> snd) (filter (\<lambda>e. ?f e = lvl) reg))"
    by (simp add: level_configs_def fun_eq_iff case_prod_unfold)
  have c: "concat (map (level_configs reg) [0 ..< m + 1]) = map (snd \<circ> snd) (concat ?groups)"
    unfolding eq map_concat by (simp only: map_map comp_def)
  have g: "mset (concat ?groups) = mset (filter (\<lambda>e. ?f e \<in> set [0 ..< m + 1]) reg)"
    by (rule mset_concat_groups) (rule distinct_upt)
  have "\<forall>e\<in>set reg. ?f e \<in> set [0 ..< m + 1]"
    using assms by (simp add: less_Suc_eq_le del: upt_Suc)
  then have f: "filter (\<lambda>e. ?f e \<in> set [0 ..< m + 1]) reg = reg"
    by (simp only: filter_id_conv)
  have "mset (map (snd \<circ> snd) (concat ?groups)) = image_mset (snd \<circ> snd) (mset (concat ?groups))"
    by (rule mset_map)
  also have "\<dots> = image_mset (snd \<circ> snd) (mset reg)"
    by (simp only: g f)
  also have "\<dots> = mset (map (snd \<circ> snd) reg)"
    by (rule mset_map [symmetric])
  finally show ?thesis by (simp only: c)
qed

lemma merge_props:
  assumes "merge_config_trees_to_list config_trees = Inr merged"
  shows "\<exists>reg m. build_registry config_trees [] 0 = Inr (reg, m)
           \<and> mset merged = mset (map (snd \<circ> snd) reg)
           \<and> (\<forall>e1\<in>set reg. \<forall>e2\<in>set reg. fst (snd e1) < fst (snd e2) \<longrightarrow>
                 (\<exists>i j. i < j \<and> j < length merged
                        \<and> merged ! i = snd (snd e1) \<and> merged ! j = snd (snd e2)))"
proof -
  obtain reg m where reg: "build_registry config_trees [] 0 = Inr (reg, m)"
    using assms unfolding merge_config_trees_to_list_def
    by (cases "build_registry config_trees [] 0") auto
  obtain sconfigs where
    sc: "mapM_err (\<lambda>lvl. sort_level (level_configs reg lvl)) [0 ..< m + 1] = Inr sconfigs"
    and merged: "merged = concat sconfigs"
    using assms unfolding merge_config_trees_to_list_def reg
    by (cases "mapM_err (\<lambda>lvl. sort_level (level_configs reg lvl)) [0 ..< m + 1]")
       (simp_all del: upt_Suc)
  have "distinct (map fst ([] :: registry))" "\<forall>e\<in>set ([] :: registry). fst (snd e) \<le> 0"
    by simp_all
  from build_registry_props [OF reg this]
  have le: "\<forall>e\<in>set reg. fst (snd e) \<le> m" by (rule conjunct1 [OF conjunct2])
  have len: "length sconfigs = m + 1"
    using mapM_err_length [OF sc] by simp
  have lvl: "mset (sconfigs ! l) = mset (level_configs reg l)" if "l \<le> m" for l
  proof -
    have "[0 ..< m + 1] ! l = l" using that nth_upt [of 0 l "m + 1"] by simp
    moreover have "l < length [0 ..< m + 1]" using that by simp
    ultimately have "sort_level (level_configs reg l) = Inr (sconfigs ! l)"
      using mapM_err_nth [OF sc, of l] by simp
    then show ?thesis by (rule sort_level_mset)
  qed
  have "mset (concat sconfigs) = mset (concat (map (level_configs reg) [0 ..< m + 1]))"
  proof (rule mset_concat_mapM [OF sc])
    fix k g assume "sort_level (level_configs reg k) = Inr g"
    then show "mset g = mset (level_configs reg k)" by (rule sort_level_mset)
  qed
  then have m1: "mset merged = mset (map (snd \<circ> snd) reg)"
    using level_configs_concat [OF le] merged by simp
  have ord: "\<exists>i j. i < j \<and> j < length merged
                   \<and> merged ! i = snd (snd e1) \<and> merged ! j = snd (snd e2)"
    if e: "e1 \<in> set reg" "e2 \<in> set reg" "fst (snd e1) < fst (snd e2)" for e1 e2
  proof -
    have l2: "fst (snd e2) \<le> m" and l1: "fst (snd e1) \<le> m" using le e by auto
    have in_lvl: "snd (snd e) \<in> set (sconfigs ! fst (snd e))"
      if "e \<in> set reg" "fst (snd e) \<le> m" for e
    proof -
      let ?sel = "filter (\<lambda>(item_id, entry). fst entry = fst (snd e)) reg"
      have "e \<in> set ?sel"
        using that(1) by (simp add: case_prod_unfold)
      then have "(snd \<circ> snd) e \<in> (snd \<circ> snd) ` set ?sel" by (rule imageI)
      then have "snd (snd e) \<in> set (level_configs reg (fst (snd e)))"
        by (simp add: level_configs_def)
      moreover have "set (sconfigs ! fst (snd e)) = set (level_configs reg (fst (snd e)))"
        by (rule mset_eq_setD [OF lvl [OF that(2)]])
      ultimately show ?thesis by simp
    qed
    have b: "fst (snd e2) < length sconfigs" using l2 len by simp
    show ?thesis
      unfolding merged
      by (rule concat_nth_order [OF e(3) b in_lvl [OF e(1) l1] in_lvl [OF e(2) l2]])
  qed
  have "\<forall>e1\<in>set reg. \<forall>e2\<in>set reg. fst (snd e1) < fst (snd e2) \<longrightarrow>
          (\<exists>i j. i < j \<and> j < length merged
                 \<and> merged ! i = snd (snd e1) \<and> merged ! j = snd (snd e2))"
    using ord by blast
  with reg m1 show ?thesis by blast
qed

subsection \<open>The items of the merged list\<close>

lemma map_of_registry_entry:
  "map_of (map registry_entry trees) k
     = map_option (\<lambda>tree. (length tree, snd (hd tree))) (List.find (\<lambda>tree. fst (hd tree) = k) trees)"
  by (induction trees) (auto simp: registry_entry_def)

lemma mset_values_distinct_keys:
  assumes "distinct (map fst al)"
  shows "mset (map snd al) = image_mset (\<lambda>k. the (map_of al k)) (mset_set (fst ` set al))"
proof -
  have "map snd al = map ((\<lambda>k. the (map_of al k)) \<circ> fst) al"
    by (rule map_cong [OF refl]) (metis assms comp_apply map_of_is_SomeI option.sel prod.collapse)
  then have "mset (map snd al) = mset (map (\<lambda>k. the (map_of al k)) (map fst al))"
    by (simp only: map_map)
  then have "mset (map snd al) = image_mset (\<lambda>k. the (map_of al k)) (mset (map fst al))"
    by (simp only: mset_map)
  moreover have "mset (map fst al) = mset_set (fst ` set al)"
    using mset_set_set [OF assms] by simp
  ultimately show ?thesis by simp
qed

text \<open>
  Claim C9. When \<^verbatim>\<open>merge_config_trees_to_list\<close> returns, no tree is empty and the
  list returned holds, for each id that is the first key of some tree, exactly one item:
  the item under the first key of the first tree that starts with that id. So every item
  returned is the first item of a tree (an item that occurs only further down in trees is
  absent), a tree whose first key repeats that of an earlier tree adds nothing, and there
  are as many items as distinct first keys.
\<close>

theorem merge_outputs_first_keys:
  assumes "merge_config_trees_to_list config_trees = Inr merged"
  shows "[] \<notin> set config_trees
       \<and> mset merged
           = image_mset
               (\<lambda>k. snd (hd (the (List.find (\<lambda>tree. fst (hd tree) = k) config_trees))))
               (mset_set ((fst \<circ> hd) ` set config_trees))
       \<and> set merged \<subseteq> (snd \<circ> hd) ` set config_trees
       \<and> length merged = card ((fst \<circ> hd) ` set config_trees)"
proof -
  from merge_props [OF assms] obtain reg m where
    reg: "build_registry config_trees [] 0 = Inr (reg, m)"
    and m1: "mset merged = mset (map (snd \<circ> snd) reg)"
    by blast
  note props = build_registry_props [OF reg, simplified]
  from props have d: "distinct (map fst reg)" and ne: "[] \<notin> set config_trees"
    and mo: "map_of reg = map_of (map registry_entry config_trees)"
    by simp_all
  have keys: "fst ` set reg = (fst \<circ> hd) ` set config_trees"
  proof -
    have "fst ` set reg = dom (map_of reg)" by (simp add: dom_map_of_conv_image_fst)
    also have "\<dots> = fst ` set (map registry_entry config_trees)"
      unfolding mo by (simp add: dom_map_of_conv_image_fst)
    also have "\<dots> = (fst \<circ> hd) ` set config_trees"
      by (auto simp: registry_entry_def image_image)
    finally show ?thesis .
  qed
  let ?first = "\<lambda>k. the (List.find (\<lambda>tree. fst (hd tree) = k) config_trees)"
  have val: "snd (the (map_of reg k)) = snd (hd (?first k))"
    if "k \<in> (fst \<circ> hd) ` set config_trees" for k
  proof -
    from that have "List.find (\<lambda>tree. fst (hd tree) = k) config_trees \<noteq> None"
      by (auto simp: find_None_iff)
    then show ?thesis unfolding mo map_of_registry_entry by auto
  qed
  have "mset (map (snd \<circ> snd) reg) = image_mset snd (mset (map snd reg))"
    by (simp add: multiset.map_comp comp_def)
  also have "mset (map snd reg) = image_mset (\<lambda>k. the (map_of reg k)) (mset_set (fst ` set reg))"
    by (rule mset_values_distinct_keys [OF d])
  also have "image_mset snd \<dots>
      = image_mset (\<lambda>k. snd (the (map_of reg k))) (mset_set ((fst \<circ> hd) ` set config_trees))"
    by (simp add: multiset.map_comp comp_def keys)
  also have "\<dots> = image_mset (\<lambda>k. snd (hd (?first k))) (mset_set ((fst \<circ> hd) ` set config_trees))"
    by (rule image_mset_cong) (use val in simp)
  finally have main: "mset merged
      = image_mset (\<lambda>k. snd (hd (?first k))) (mset_set ((fst \<circ> hd) ` set config_trees))"
    using m1 by (simp add: comp_def)
  have sub: "set merged \<subseteq> (snd \<circ> hd) ` set config_trees"
  proof
    fix cfg assume "cfg \<in> set merged"
    then have "cfg \<in># mset merged" by simp
    then obtain k where k: "k \<in> (fst \<circ> hd) ` set config_trees" "cfg = snd (hd (?first k))"
      unfolding main by auto
    then obtain tree where tree: "List.find (\<lambda>tree. fst (hd tree) = k) config_trees = Some tree"
      by (cases "List.find (\<lambda>tree. fst (hd tree) = k) config_trees")
         (auto simp: find_None_iff)
    then have "tree \<in> set config_trees"
      unfolding find_Some_iff by auto
    moreover have "cfg = snd (hd tree)" using k(2) tree by simp
    ultimately show "cfg \<in> (snd \<circ> hd) ` set config_trees" by auto
  qed
  have "length merged = size (mset merged)" by simp
  also have "\<dots> = card ((fst \<circ> hd) ` set config_trees)"
    unfolding main by simp
  finally show ?thesis using ne main sub by blast
qed

theorem merge_outputs_first_keys_witness:
  "merge_config_trees_to_list duplicate_trees = Inr [example_sda1]
   \<and> [] \<notin> set duplicate_trees
   \<and> mset [example_sda1]
       = image_mset
           (\<lambda>k. snd (hd (the (List.find (\<lambda>tree. fst (hd tree) = k) duplicate_trees))))
           (mset_set ((fst \<circ> hd) ` set duplicate_trees))
   \<and> set [example_sda1] \<subseteq> (snd \<circ> hd) ` set duplicate_trees
   \<and> length [example_sda1] = card ((fst \<circ> hd) ` set duplicate_trees)"
proof -
  have h: "merge_config_trees_to_list duplicate_trees = Inr [example_sda1]"
    by code_simp
  show ?thesis
    using h merge_outputs_first_keys [OF h] by (rule conjI)
qed

subsection \<open>Absent items and siblings\<close>











subsection \<open>The depth of calls\<close>

lemma deps_of_dep_mono:
  assumes "deps_of_dep lower item_id item_order dep_key dep config validate = Inr z"
    and "\<And>r. lower dep = Inr r \<Longrightarrow> lower' dep = Inr r"
  shows "deps_of_dep lower' item_id item_order dep_key dep config validate = Inr z"
  using assms by (auto simp: deps_of_dep_def split: sum.splits)

lemma deps_of_key_mono:
  assumes "deps_of_key lower item_id item_cfg item_order dep_key config validate = Inr y"
    and "\<And>dep r. lower dep = Inr r \<Longrightarrow> lower' dep = Inr r"
  shows "deps_of_key lower' item_id item_cfg item_order dep_key config validate = Inr y"
proof (cases "map_of item_cfg dep_key")
  case None
  then show ?thesis using assms(1) by (simp add: deps_of_key_def)
next
  case (Some v)
  from assms(1) Some obtain f2 where
    f2: "mapM_err (\<lambda>dep. deps_of_dep lower item_id item_order dep_key dep config validate)
           (dep_values v) = Inr f2"
    and y: "y = dep_values v @ concat f2"
    by (auto simp: deps_of_key_def split: sum.splits)
  have "mapM_err (\<lambda>dep. deps_of_dep lower' item_id item_order dep_key dep config validate)
           (dep_values v) = Inr f2"
    by (rule mapM_err_mono [OF f2]) (rule deps_of_dep_mono, assumption, rule assms(2))
  then show ?thesis using Some y by (simp add: deps_of_key_def)
qed

lemma find_item_dependencies_Suc:
  "find_item_dependencies depth item_id config validate = Inr r
     \<Longrightarrow> find_item_dependencies (Suc depth) item_id config validate = Inr r"
proof (induction depth arbitrary: item_id validate r)
  case 0
  then show ?case by simp
next
  case (Suc depth)
  let ?lo = "\<lambda>dep. find_item_dependencies depth dep config True"
  let ?hi = "\<lambda>dep. find_item_dependencies (Suc depth) dep config True"
  have mono: "mapM_err (\<lambda>dep_key. deps_of_key ?hi item_id item_cfg item_order dep_key config
                validate) dep_keys = Inr found"
    if "mapM_err (\<lambda>dep_key. deps_of_key ?lo item_id item_cfg item_order dep_key config
                validate) dep_keys = Inr found"
    for item_cfg item_order dep_keys found
    by (rule mapM_err_mono [OF that]) (rule deps_of_key_mono, assumption, rule Suc.IH)
  show ?case
    using Suc.prems
    by (subst find_item_dependencies.simps)
       (auto simp: Let_def split: if_splits sum.splits option.splits dest!: mono)
qed

lemma find_item_dependencies_mono:
  assumes "find_item_dependencies depth item_id config validate = Inr r"
  shows "find_item_dependencies (depth + k) item_id config validate = Inr r"
proof (induction k)
  case 0
  show ?case using assms by (simp only: add_0_right)
next
  case (Suc k)
  have "find_item_dependencies (Suc (depth + k)) item_id config validate = Inr r"
    by (rule find_item_dependencies_Suc [OF Suc.IH])
  then show ?case by (simp only: add_Suc_right)
qed

subsection \<open>References and trees\<close>









subsection \<open>The example of a disk with two partitions\<close>

lemma get_config_tree_mono:
  assumes "get_config_tree depth i storage_config = Inr tree"
  shows "get_config_tree (depth + k) i storage_config = Inr tree"
proof -
  from assms obtain sconfig item_cfg deps where
    s: "extract_storage_ordered_dict storage_config = Inr sconfig"
    and c: "dict_item sconfig i = Inr item_cfg"
    and d: "find_item_dependencies depth i sconfig True = Inr (Some deps)"
    by (auto simp: get_config_tree_def split: sum.splits option.splits)
  have "find_item_dependencies (depth + k) i sconfig True = Inr (Some deps)"
    by (rule find_item_dependencies_mono [OF d])
  then show ?thesis using assms s c d by (simp add: get_config_tree_def)
qed

lemma config_trees_of_mono:
  assumes "config_trees_of depth ordered = Inr trees"
  shows "config_trees_of (depth + k) ordered = Inr trees"
  unfolding config_trees_of_def
  by (rule mapM_err_mono [OF assms [unfolded config_trees_of_def]])
     (auto split: option.splits sum.splits simp: get_config_tree_mono)

text \<open>
  Claim C8. For the configuration of the disk \<^verbatim>\<open>sda\<close> and its partitions
  \<^verbatim>\<open>sda1\<close> (number 1) and \<^verbatim>\<open>sda2\<close> (number 2), building one tree
  for each item, at any depth of calls of at least two, and merging the trees gives the
  order \<^verbatim>\<open>sda\<close>, \<^verbatim>\<open>sda1\<close>, \<^verbatim>\<open>sda2\<close>. The level recorded for an item
  is the number of items of its tree: 1 for \<^verbatim>\<open>sda\<close>, and 3 for each partition,
  whose tree holds the partition, the disk and the other partition.
\<close>

theorem example_order_and_levels:
  "config_trees_of (2 + k) example_config = Inr example_trees
   \<and> build_registry example_trees [] 0
       = Inr ([(Str ''sda'', (1, example_sda)), (Str ''sda1'', (3, example_sda1)),
               (Str ''sda2'', (3, example_sda2))], 3)
   \<and> map length example_trees = [1, 3, 3]
   \<and> merge_config_trees_to_list example_trees = Inr [example_sda, example_sda1, example_sda2]"
proof -
  have "config_trees_of 2 example_config = Inr example_trees" by code_simp
  then have "config_trees_of (2 + k) example_config = Inr example_trees"
    by (rule config_trees_of_mono)
  moreover have "build_registry example_trees [] 0
       = Inr ([(Str ''sda'', (1, example_sda)), (Str ''sda1'', (3, example_sda1)),
               (Str ''sda2'', (3, example_sda2))], 3)"
    by code_simp
  moreover have "map length example_trees = [1, 3, 3]" by code_simp
  moreover have "merge_config_trees_to_list example_trees
       = Inr [example_sda, example_sda1, example_sda2]"
    by code_simp
  ultimately show ?thesis by simp
qed

theorem example_levels_counterexample:
  "config_trees_of 2 example_config = Inr example_trees
   \<and> map (fst \<circ> snd) (fst (projr (build_registry example_trees [] 0))) = [1, 3, 3]
   \<and> map (fst \<circ> snd) (fst (projr (build_registry example_trees [] 0))) \<noteq> [0, 1, 1]"
  by code_simp

subsection \<open>The order of the merged list\<close>












text \<open>
  A cache stacked on a cache, the two sharing their cache device: each is a sibling of
  the other, the two trees have the same four items, and within the level the order is
  that of the names.
\<close>

lemma stacked_bcache_example:
  "map (map fst) (projr (config_trees_of 3 stacked_config))
     = [[Str ''sdb''], [Str ''sdc''],
        [Str ''bcache0'', Str ''sdb'', Str ''sdc'', Str ''bcache1''],
        [Str ''bcache1'', Str ''bcache0'', Str ''sdb'', Str ''sdc'']]
   \<and> merge_config_trees_to_list (projr (config_trees_of 3 stacked_config))
       = Inr [stacked_sdb, stacked_sdc, stacked_bcache1, stacked_bcache0]"
  by code_simp

end
